theory Spec2Isabelle
  imports Complex_Main
begin

section \<open>JavaScript strings\<close>

text \<open>
  A JavaScript string is a sequence of UTF-16 code units.  The model keeps the code
  units as natural numbers, so that the currency signs the program looks for
  (U+20AC, U+00A3, U+20B9) and the Unicode white space removed by \<^verbatim>\<open>trim\<close> and
  \<^verbatim>\<open>\s\<close> are ordinary characters.  \<open>js\<close> turns an ASCII literal into such a string.
\<close>

type_synonym jschar = nat
type_synonym jsstring = "nat list"

abbreviation ch :: "char \<Rightarrow> jschar" where
  "ch c \<equiv> of_char c"

definition js :: "string \<Rightarrow> jsstring" where
  "js s = map of_char s"

definition euro :: jschar where "euro = 8364"
definition pound :: jschar where "pound = 163"
definition rupee :: jschar where "rupee = 8377"

text \<open>The class \<^verbatim>\<open>\d\<close> (and \<^verbatim>\<open>[0-9]\<close>): the code units 48 to 57.\<close>

definition isDigit :: "jschar \<Rightarrow> bool" where
  "isDigit c \<longleftrightarrow> 48 \<le> c \<and> c \<le> 57"

text \<open>The ASCII letters \<^verbatim>\<open>A-Z\<close> and \<^verbatim>\<open>a-z\<close>.\<close>

definition isLetter :: "jschar \<Rightarrow> bool" where
  "isLetter c \<longleftrightarrow> (65 \<le> c \<and> c \<le> 90) \<or> (97 \<le> c \<and> c \<le> 122)"

text \<open>
  The class \<^verbatim>\<open>\s\<close>, which is also what \<^verbatim>\<open>String.prototype.trim\<close> removes: the
  ECMAScript WhiteSpace and LineTerminator code points.
\<close>

definition isSpace :: "jschar \<Rightarrow> bool" where
  "isSpace c \<longleftrightarrow>
     c \<in> {9, 10, 11, 12, 13, 32, 160, 5760, 8232, 8233, 8239, 8287, 12288, 65279}
     \<or> (8192 \<le> c \<and> c \<le> 8202)"

definition trim :: "jsstring \<Rightarrow> jsstring" where
  "trim s = rev (dropWhile isSpace (rev (dropWhile isSpace s)))"

text \<open>\<^verbatim>\<open>s.split(sep)\<close> for a one-character separator; the empty string gives one empty part.\<close>

fun splitOn :: "jschar \<Rightarrow> jsstring \<Rightarrow> jsstring list" where
  "splitOn sep [] = [[]]"
| "splitOn sep (c # cs) =
     (if c = sep then [] # splitOn sep cs
      else (case splitOn sep cs of [] \<Rightarrow> [[c]] | p # ps \<Rightarrow> (c # p) # ps))"

section \<open>JavaScript numbers\<close>

text \<open>
  A JavaScript number is an IEEE 754 double.  A finite double is kept as the rational it
  denotes; every arithmetic operation computes the exact rational result and rounds it
  to the nearest double, ties to even (\<open>fl\<close>).  Negative zero is identified with zero:
  the program never divides by a computed zero nor prints the sign of a zero.
\<close>

datatype jsnum = Fin rat | PInf | NInf | NaN

definition pow2 :: "int \<Rightarrow> rat" where
  "pow2 e = (if 0 \<le> e then 2 ^ nat e else 1 / 2 ^ nat (- e))"

fun ilog2 :: "nat \<Rightarrow> nat" where
  "ilog2 n = (if n < 2 then 0 else Suc (ilog2 (n div 2)))"

declare ilog2.simps [simp del]

text \<open>For \<open>0 < q\<close>, the exponent \<open>e\<close> with \<open>2 ^ e \<le> q < 2 ^ (e + 1)\<close>.\<close>

definition floorLog2 :: "rat \<Rightarrow> int" where
  "floorLog2 q = (if 1 \<le> q then int (ilog2 (nat \<lfloor>q\<rfloor>))
                  else - int (ilog2 (nat (\<lceil>1 / q\<rceil> - 1))) - 1)"

definition roundHalfEven :: "rat \<Rightarrow> int" where
  "roundHalfEven x =
     (let f = \<lfloor>x\<rfloor>; r = x - of_int f
      in if r < 1 / 2 then f else if 1 / 2 < r then f + 1
         else if even f then f else f + 1)"

text \<open>
  Rounding to double precision: 53 significant bits, exponents from -1022 (below which
  the spacing stays that of the subnormal numbers) to 1023, overflow to infinity.
\<close>

definition fl :: "rat \<Rightarrow> jsnum" where
  "fl q =
     (if q = 0 then Fin 0
      else let a = \<bar>q\<bar>;
               e = max (floorLog2 a) (- 1022);
               u = pow2 (e - 52);
               r = of_int (roundHalfEven (a / u)) * u
           in if pow2 1024 \<le> r then (if 0 < q then PInf else NInf)
              else Fin (if 0 < q then r else - r))"

text \<open>A decimal literal of the source, such as \<^verbatim>\<open>0.01\<close>, is the double nearest to it.\<close>

abbreviation lit :: "rat \<Rightarrow> jsnum" where
  "lit q \<equiv> fl q"

definition isFinite :: "jsnum \<Rightarrow> bool" where
  "isFinite x = (case x of Fin _ \<Rightarrow> True | _ \<Rightarrow> False)"

text \<open>Truthiness of a number: \<^verbatim>\<open>0\<close> and \<^verbatim>\<open>NaN\<close> are falsy.\<close>

definition truthy :: "jsnum \<Rightarrow> bool" where
  "truthy x \<longleftrightarrow> x \<noteq> Fin 0 \<and> x \<noteq> NaN"

definition orElse :: "jsnum \<Rightarrow> jsnum \<Rightarrow> jsnum" where
  "orElse x y = (if truthy x then x else y)"

definition isNeg :: "jsnum \<Rightarrow> bool" where
  "isNeg x = (case x of Fin a \<Rightarrow> a < 0 | NInf \<Rightarrow> True | _ \<Rightarrow> False)"

fun jneg :: "jsnum \<Rightarrow> jsnum" where
  "jneg (Fin a) = Fin (- a)"
| "jneg PInf = NInf"
| "jneg NInf = PInf"
| "jneg NaN = NaN"

fun jadd :: "jsnum \<Rightarrow> jsnum \<Rightarrow> jsnum" where
  "jadd (Fin a) (Fin b) = fl (a + b)"
| "jadd NaN _ = NaN"
| "jadd _ NaN = NaN"
| "jadd PInf NInf = NaN"
| "jadd NInf PInf = NaN"
| "jadd (Fin _) y = y"
| "jadd x _ = x"

definition jsub :: "jsnum \<Rightarrow> jsnum \<Rightarrow> jsnum" where
  "jsub x y = jadd x (jneg y)"

fun jmul :: "jsnum \<Rightarrow> jsnum \<Rightarrow> jsnum" where
  "jmul (Fin a) (Fin b) = fl (a * b)"
| "jmul NaN _ = NaN"
| "jmul _ NaN = NaN"
| "jmul x y = (if x = Fin 0 \<or> y = Fin 0 then NaN
               else if isNeg x = isNeg y then PInf else NInf)"

fun jdiv :: "jsnum \<Rightarrow> jsnum \<Rightarrow> jsnum" where
  "jdiv (Fin a) (Fin b) =
     (if b = 0 then (if a = 0 then NaN else if 0 < a then PInf else NInf)
      else fl (a / b))"
| "jdiv NaN _ = NaN"
| "jdiv _ NaN = NaN"
| "jdiv (Fin _) _ = Fin 0"
| "jdiv x (Fin b) = (if isNeg x = (b < 0) then PInf else NInf)"
| "jdiv _ _ = NaN"

fun jabs :: "jsnum \<Rightarrow> jsnum" where
  "jabs (Fin a) = Fin \<bar>a\<bar>"
| "jabs NaN = NaN"
| "jabs _ = PInf"

text \<open>The comparison \<^verbatim>\<open>x < y\<close>; every comparison with \<^verbatim>\<open>NaN\<close> is false.\<close>

fun jlt :: "jsnum \<Rightarrow> jsnum \<Rightarrow> bool" where
  "jlt (Fin a) (Fin b) \<longleftrightarrow> a < b"
| "jlt NaN _ \<longleftrightarrow> False"
| "jlt _ NaN \<longleftrightarrow> False"
| "jlt NInf y \<longleftrightarrow> y \<noteq> NInf"
| "jlt x PInf \<longleftrightarrow> x \<noteq> PInf"
| "jlt _ _ \<longleftrightarrow> False"

definition jle :: "jsnum \<Rightarrow> jsnum \<Rightarrow> bool" where
  "jle x y \<longleftrightarrow> x \<noteq> NaN \<and> y \<noteq> NaN \<and> (x = y \<or> jlt x y)"

definition mathMax :: "jsnum \<Rightarrow> jsnum \<Rightarrow> jsnum" where
  "mathMax x y = (if x = NaN \<or> y = NaN then NaN else if jlt x y then y else x)"

definition mathMin :: "jsnum \<Rightarrow> jsnum \<Rightarrow> jsnum" where
  "mathMin x y = (if x = NaN \<or> y = NaN then NaN else if jlt y x then y else x)"

text \<open>\<^verbatim>\<open>Math.round\<close>: the nearest integer, a tie going up.\<close>

fun mathRound :: "jsnum \<Rightarrow> jsnum" where
  "mathRound (Fin a) = Fin (of_int \<lfloor>a + 1 / 2\<rfloor>)"
| "mathRound x = x"

text \<open>
  \<^verbatim>\<open>parseFloat(x.toFixed(2))\<close>: \<^verbatim>\<open>toFixed\<close> picks the integer \<open>n\<close> with \<open>n / 100\<close>
  nearest to \<open>x\<close> (the larger one at a tie) and prints it with two decimals; from
  \<open>10 ^ 21\<close> on, and for infinities and \<^verbatim>\<open>NaN\<close>, it prints the number itself, and
  reading the text back gives the same number.
\<close>

definition roundFixed2 :: "jsnum \<Rightarrow> jsnum" where
  "roundFixed2 x =
     (case x of
        Fin a \<Rightarrow> if \<bar>a\<bar> < 10 ^ 21
                 then (if 0 \<le> a then fl (of_int \<lfloor>a * 100 + 1 / 2\<rfloor> / 100)
                       else fl (- (of_int \<lfloor>- a * 100 + 1 / 2\<rfloor> / 100)))
                 else x
      | _ \<Rightarrow> x)"

definition digitsValue :: "jsstring \<Rightarrow> nat" where
  "digitsValue ds = foldl (\<lambda>n d. 10 * n + (d - 48)) 0 ds"

text \<open>
  \<^verbatim>\<open>parseFloat\<close> on the strings this program gives it: after leading white space, the
  longest prefix of the form digits, optionally a dot and digits, is read as a decimal
  numeral and rounded to the nearest double; without a digit the result is \<^verbatim>\<open>NaN\<close>.
  A sign, an exponent or the word \<^verbatim>\<open>Infinity\<close> is not modelled: every string the
  program parses is made of the characters \<^verbatim>\<open>0-9\<close>, \<^verbatim>\<open>.\<close> and \<^verbatim>\<open>o\<close> only.
\<close>

definition parseFloat :: "jsstring \<Rightarrow> jsnum" where
  "parseFloat s =
     (let t = dropWhile isSpace s;
          ip = takeWhile isDigit t;
          rest = dropWhile isDigit t;
          fp = (case rest of [] \<Rightarrow> [] | c # r \<Rightarrow> if c = ch CHR ''.'' then takeWhile isDigit r else [])
      in if ip = [] \<and> fp = [] then NaN
         else fl (of_nat (digitsValue ip) + of_nat (digitsValue fp) / 10 ^ length fp))"

section \<open>Configuration\<close>

text \<open>
  The thresholds of \<^verbatim>\<open>config.js\<close> come from the environment
  (\<^verbatim>\<open>parseFloat(process.env.X) || default\<close>); the functions below take them as a record.
\<close>

record config =
  minOcrConfidence :: jsnum
  minNormalizationConfidence :: jsnum
  minClassificationConfidence :: jsnum

definition defaultConfig :: config where
  "defaultConfig = \<lparr> minOcrConfidence = lit (2 / 10),
                      minNormalizationConfidence = lit (3 / 10),
                      minClassificationConfidence = lit (4 / 10) \<rparr>"

section \<open>Normalizer (normalizer.service.js)\<close>

definition digitCorrections :: "jschar \<Rightarrow> jschar option" where
  "digitCorrections = map_of
     [(ch CHR ''l'', ch CHR ''1''), (ch CHR ''L'', ch CHR ''1''),
      (ch CHR ''I'', ch CHR ''1''), (ch CHR ''i'', ch CHR ''1''),
      (ch CHR ''O'', ch CHR ''0''), (ch CHR ''o'', ch CHR ''0''), (ch CHR ''D'', ch CHR ''0''),
      (ch CHR ''S'', ch CHR ''5''), (ch CHR ''s'', ch CHR ''5''),
      (ch CHR ''Z'', ch CHR ''2''), (ch CHR ''z'', ch CHR ''2''),
      (ch CHR ''B'', ch CHR ''8''), (ch CHR ''b'', ch CHR ''8''),
      (ch CHR ''G'', ch CHR ''6''), (ch CHR ''g'', ch CHR ''6''),
      (ch CHR ''T'', ch CHR ''7''), (ch CHR ''t'', ch CHR ''7'')]"

text \<open>
  The class of the first replacement, flags \<^verbatim>\<open>gi\<close>: the characters \<^verbatim>\<open>R\<close>, \<^verbatim>\<open>s\<close>,
  \<^verbatim>\<open>.\<close>, \<^verbatim>\<open>$\<close> and the euro, pound and rupee signs.  It is a character class, so it
  removes every \<^verbatim>\<open>R\<close> and \<^verbatim>\<open>s\<close> (in both cases, by the \<^verbatim>\<open>i\<close> flag) and every dot,
  not only the marker \<^verbatim>\<open>Rs.\<close>.
\<close>

definition isCurrencySymbol :: "jschar \<Rightarrow> bool" where
  "isCurrencySymbol c \<longleftrightarrow>
     c \<in> set (js ''RrSs.$'') \<or> c = euro \<or> c = pound \<or> c = rupee"

text \<open>The class \<^verbatim>\<open>/[0-9.,]/\<close>.\<close>

definition isNumericChar :: "jschar \<Rightarrow> bool" where
  "isNumericChar c \<longleftrightarrow> isDigit c \<or> c = ch CHR ''.'' \<or> c = ch CHR '',''"

text \<open>
  \<^verbatim>\<open>hasAdjacentDigit\<close> at index \<open>i\<close>: \<^verbatim>\<open>prevChar\<close> is empty at the first index
  and \<^verbatim>\<open>nextChar\<close> at the last one, and the empty string holds no digit.
\<close>

definition hasAdjacentDigit :: "jsstring \<Rightarrow> nat \<Rightarrow> bool" where
  "hasAdjacentDigit fixed i \<longleftrightarrow>
     (0 < i \<and> isDigit (fixed ! (i - 1)))
     \<or> (i < length fixed - 1 \<and> isDigit (fixed ! (i + 1)))"

text \<open>One round of the loop over \<^verbatim>\<open>i\<close>: what is appended to \<^verbatim>\<open>result\<close>.\<close>

definition correctChar :: "jsstring \<Rightarrow> nat \<Rightarrow> jsstring" where
  "correctChar fixed i =
     (let char = fixed ! i
      in if digitCorrections char \<noteq> None \<and> hasAdjacentDigit fixed i
         then [the (digitCorrections char)]
         else if isNumericChar char then [char]
         else [])"

definition correctDigits :: "jsstring \<Rightarrow> jsstring" where
  "correctDigits fixed =
     foldl (\<lambda>result i. result @ correctChar fixed i) [] [0..<length fixed]"

text \<open>
  The same loop as a recursion over the string that carries the previous character;
  \<open>correctDigits_scan\<close> below proves that it computes \<open>correctDigits\<close>.
\<close>

fun scan :: "jschar option \<Rightarrow> jsstring \<Rightarrow> jsstring" where
  "scan prev [] = []"
| "scan prev (c # cs) =
     (let adjacent =
            ((case prev of None \<Rightarrow> False | Some p \<Rightarrow> isDigit p)
             \<or> (case cs of [] \<Rightarrow> False | n # _ \<Rightarrow> isDigit n))
      in (if digitCorrections c \<noteq> None \<and> adjacent
          then [the (digitCorrections c)]
          else if isNumericChar c then [c]
          else []) @ scan (Some c) cs)"

definition fixOcrDigits :: "jsstring \<Rightarrow> jsstring" where
  "fixOcrDigits token =
     (if token = [] then []
      else let fixed = trim token;
               fixed = filter (\<lambda>c. \<not> isCurrencySymbol c) fixed;
               fixed = filter (\<lambda>c. \<not> isSpace c) fixed;
               fixed = correctDigits fixed;
               fixed = filter (\<lambda>c. c \<noteq> ch CHR '','') fixed;
               fixed = filter (\<lambda>c. isDigit c \<or> c = ch CHR ''.'') fixed;
               parts = splitOn (ch CHR ''.'') fixed
           in if 2 < length parts
              then hd parts @ [ch CHR ''.''] @ concat (tl parts)
              else fixed)"

record parsed =
  p_type :: jsstring
  p_value :: jsnum
  p_original :: jsstring
  p_normalized :: jsstring

definition parseNumeric :: "jsstring \<Rightarrow> parsed option" where
  "parseNumeric token =
     (let fixed = fixOcrDigits token
      in if fixed = [] \<or> fixed = [ch CHR ''.''] then None
         else if ch CHR ''%'' \<in> set token then None
         else let v = parseFloat fixed
              in if \<not> isFinite v \<or> jlt v (Fin 0) then None
                 else if jlt v (lit (1 / 100)) then None
                 else Some \<lparr> p_type = js ''number'',
                             p_value = jdiv (mathRound (jmul v (Fin 100))) (Fin 100),
                             p_original = token,
                             p_normalized = fixed \<rparr>)"

datatype reason = duplicate | percentage | invalid_format

record detail =
  d_original :: jsstring
  d_normalized :: jsstring
  d_value :: "jsnum option"
  d_success :: bool
  d_reason :: "reason option"

record norm_result =
  normalized_amounts :: "jsnum list"
  normalization_confidence :: jsnum
  details :: "detail list"

definition calculateNormalizationConfidence :: "config \<Rightarrow> jsnum \<Rightarrow> nat \<Rightarrow> jsnum" where
  "calculateNormalizationConfidence cfg successRate amountCount =
     (if amountCount = 0 then Fin 0
      else let confidence = jadd (lit (5 / 10)) (jmul successRate (lit (4 / 10)));
               confidence = (if 2 \<le> amountCount \<and> amountCount \<le> 10
                             then jadd confidence (lit (1 / 10)) else confidence);
               confidence = (if amountCount = 1
                             then jmul confidence (lit (9 / 10)) else confidence)
           in mathMax (orElse (minNormalizationConfidence cfg) (lit (3 / 10)))
                      (mathMin (lit (99 / 100)) confidence))"

text \<open>
  The state of the loop of \<^verbatim>\<open>normalizeTokens\<close>: \<^verbatim>\<open>normalizedAmounts\<close>,
  \<^verbatim>\<open>details\<close>, \<^verbatim>\<open>seenValues\<close> (a \<^verbatim>\<open>Set\<close>, kept as the list of its elements) and
  \<^verbatim>\<open>successfulParsed\<close>.
\<close>

record norm_state =
  ns_amounts :: "jsnum list"
  ns_details :: "detail list"
  ns_seen :: "jsnum list"
  ns_successful :: nat

definition failedDetail :: "jsstring \<Rightarrow> parsed option \<Rightarrow> detail" where
  "failedDetail token p =
     \<lparr> d_original = token, d_normalized = fixOcrDigits token, d_value = None,
       d_success = False,
       d_reason = Some (if p \<noteq> None then percentage else invalid_format) \<rparr>"

definition normalizeStep :: "norm_state \<Rightarrow> jsstring \<Rightarrow> norm_state" where
  "normalizeStep st token =
     (let p = parseNumeric token
      in if p \<noteq> None \<and> p_type (the p) = js ''number''
         then (if p_value (the p) \<in> set (ns_seen st)
               then st \<lparr> ns_details := ns_details st @
                      [\<lparr> d_original = p_original (the p), d_normalized = p_normalized (the p),
                         d_value = Some (p_value (the p)), d_success = False,
                         d_reason = Some duplicate \<rparr>] \<rparr>
               else \<lparr> ns_amounts = ns_amounts st @ [p_value (the p)],
                      ns_details = ns_details st @
                      [\<lparr> d_original = p_original (the p), d_normalized = p_normalized (the p),
                         d_value = Some (p_value (the p)), d_success = True,
                         d_reason = None \<rparr>],
                      ns_seen = ns_seen st @ [p_value (the p)],
                      ns_successful = ns_successful st + 1 \<rparr>)
         else st \<lparr> ns_details := ns_details st @ [failedDetail token p] \<rparr>)"

definition normalizeTokens :: "config \<Rightarrow> jsstring list \<Rightarrow> norm_result" where
  "normalizeTokens cfg rawTokens =
     (if rawTokens = []
      then \<lparr> normalized_amounts = [], normalization_confidence = Fin 0, details = [] \<rparr>
      else let st = foldl normalizeStep
                      \<lparr> ns_amounts = [], ns_details = [], ns_seen = [], ns_successful = 0 \<rparr>
                      rawTokens;
               successRate = jdiv (Fin (of_nat (ns_successful st)))
                                  (Fin (of_nat (length rawTokens)));
               confidence = calculateNormalizationConfidence cfg successRate
                              (length (ns_amounts st))
           in \<lparr> normalized_amounts = ns_amounts st,
                normalization_confidence = roundFixed2 confidence,
                details = ns_details st \<rparr>)"

text \<open>
  What is expected of the detail \<open>d\<close> recorded for the token at index \<open>i\<close> of \<open>ts\<close>:
  a token that does not parse is recorded as a failure without a value; a token that
  parses is recorded with its value, as a success exactly when no earlier token parses to
  the same value, and as a \<^verbatim>\<open>duplicate\<close> otherwise.  Used to state the loop invariant.
\<close>

definition detailOK :: "jsstring list \<Rightarrow> nat \<Rightarrow> detail \<Rightarrow> bool" where
  "detailOK ts i d \<longleftrightarrow>
     (case parseNumeric (ts ! i) of
        None \<Rightarrow> \<not> d_success d \<and> d_value d = None
      | Some p \<Rightarrow> d_original d = ts ! i \<and> d_value d = Some (p_value p)
          \<and> (d_success d \<longleftrightarrow> (\<forall>j<i. \<forall>q. parseNumeric (ts ! j) = Some q \<longrightarrow> p_value q \<noteq> p_value p))
          \<and> d_reason d = (if d_success d then None else Some duplicate))"

section \<open>Regular expressions\<close>

text \<open>
  The patterns of the program, with the backtracking semantics of ECMAScript.  A
  character class is a predicate on code units; the \<^verbatim>\<open>i\<close> flag is part of the class
  (a pattern letter matches both of its ASCII cases: without the \<^verbatim>\<open>u\<close> flag no code unit
  from 128 on is folded onto an ASCII letter).  \<open>Rep min max r\<close> is the greedy quantifier
  \<^verbatim>\<open>r{min,max}\<close> (\<open>None\<close>: no upper bound), \<open>WordB\<close> is \<^verbatim>\<open>\b\<close> and \<open>Grp\<close> is the capturing
  group; the program's patterns have one group at most, and none inside a quantifier.
\<close>

datatype rx =
    Chr "jschar \<Rightarrow> bool"
  | Eps
  | Cat rx rx
  | Alt rx rx
  | Rep nat "nat option" rx
  | WordB
  | Grp rx

type_synonym capture = "(nat \<times> nat) option"

text \<open>The class \<^verbatim>\<open>\w\<close>: ASCII letters, digits and the underscore.\<close>

definition isWordChar :: "jschar \<Rightarrow> bool" where
  "isWordChar c \<longleftrightarrow> isLetter c \<or> isDigit c \<or> c = ch CHR ''_''"

definition atWordBoundary :: "jsstring \<Rightarrow> nat \<Rightarrow> bool" where
  "atWordBoundary s p \<longleftrightarrow>
     (0 < p \<and> isWordChar (s ! (p - 1))) \<noteq> (p < length s \<and> isWordChar (s ! p))"

fun rxsize :: "rx \<Rightarrow> nat" where
  "rxsize (Cat a b) = Suc (rxsize a + rxsize b)"
| "rxsize (Alt a b) = Suc (rxsize a + rxsize b)"
| "rxsize (Rep mn mx a) = Suc (rxsize a)"
| "rxsize (Grp a) = Suc (rxsize a)"
| "rxsize _ = 0"

fun repmin :: "rx \<Rightarrow> nat" where
  "repmin (Rep mn mx a) = mn"
| "repmin _ = 0"

definition laterCapture :: "capture \<Rightarrow> nat \<times> capture \<Rightarrow> nat \<times> capture" where
  "laterCapture c y = (fst y, if snd y = None then c else snd y)"

text \<open>
  \<open>rxm s r p\<close>: the ways \<open>r\<close> matches in \<open>s\<close> from position \<open>p\<close>, each as the end position
  and the text of the group, in the order in which the backtracking matcher tries them;
  the head of the list is the match it returns.  A quantifier tries one more round of its
  body first and stopping here last; a round that matches the empty string, once the
  minimum is reached, is a failure, as in ECMAScript's RepeatMatcher.  (The tests
  \<open>fst x \<le> p\<close> for \<open>fst x = p\<close> and \<open>length s < fst x\<close> never fire otherwise: a match ends
  inside the string and not before its start.)
\<close>

function rxm :: "jsstring \<Rightarrow> rx \<Rightarrow> nat \<Rightarrow> (nat \<times> capture) list" where
  "rxm s (Chr P) p = (if p < length s \<and> P (s ! p) then [(p + 1, None)] else [])"
| "rxm s Eps p = [(p, None)]"
| "rxm s WordB p = (if atWordBoundary s p then [(p, None)] else [])"
| "rxm s (Cat a b) p =
     concat (map (\<lambda>x. map (laterCapture (snd x)) (rxm s b (fst x))) (rxm s a p))"
| "rxm s (Alt a b) p = rxm s a p @ rxm s b p"
| "rxm s (Grp a) p = map (\<lambda>x. (fst x, Some (p, fst x))) (rxm s a p)"
| "rxm s (Rep mn mx a) p =
     (if mx = Some 0 then [(p, None)]
      else concat (map (\<lambda>x. if (mn = 0 \<and> fst x \<le> p) \<or> length s < fst x then []
                              else map (laterCapture (snd x))
                                     (rxm s (Rep (mn - 1) (map_option (\<lambda>m. m - 1) mx) a) (fst x)))
                       (rxm s a p))
           @ (if mn = 0 then [(p, None)] else []))"
  by pat_completeness auto
termination
  by (relation "measures [\<lambda>(s, r, p). rxsize r, \<lambda>(s, r, p). repmin r, \<lambda>(s, r, p). length s - p]")
     auto

declare rxm.simps [simp del]

text \<open>A match: where it starts, where it ends, and the text of the group.\<close>

record rxmatch =
  m_index :: nat
  m_end :: nat
  m_group :: capture

text \<open>
  \<^verbatim>\<open>s.matchAll(r)\<close> for a global pattern whose \<^verbatim>\<open>lastIndex\<close> is 0: the start positions
  are tried from left to right; after a match the search goes on at its end (one further
  after an empty match).  \<open>i\<close> is the position from which the search goes on.
\<close>

fun scanMatches :: "jsstring \<Rightarrow> rx \<Rightarrow> nat \<Rightarrow> nat list \<Rightarrow> rxmatch list" where
  "scanMatches s r i [] = []"
| "scanMatches s r i (p # ps) =
     (if p < i then scanMatches s r i ps
      else (case rxm s r p of
              [] \<Rightarrow> scanMatches s r i ps
            | x # _ \<Rightarrow> \<lparr> m_index = p, m_end = fst x, m_group = snd x \<rparr>
                       # scanMatches s r (if fst x = p then p + 1 else fst x) ps))"

definition matchAll :: "jsstring \<Rightarrow> rx \<Rightarrow> rxmatch list" where
  "matchAll s r = scanMatches s r 0 [0..<Suc (length s)]"

text \<open>\<^verbatim>\<open>r.test(s)\<close> for a pattern without the \<^verbatim>\<open>g\<close> flag: is there a match anywhere.\<close>

definition test :: "rx \<Rightarrow> jsstring \<Rightarrow> bool" where
  "test r s \<longleftrightarrow> (\<exists>p\<in>set [0..<Suc (length s)]. rxm s r p \<noteq> [])"

text \<open>The text between two positions.\<close>

definition substring :: "jsstring \<Rightarrow> nat \<Rightarrow> nat \<Rightarrow> jsstring" where
  "substring s i j = take (j - i) (drop i s)"

text \<open>Building patterns.\<close>

definition upperAscii :: "jschar \<Rightarrow> jschar" where
  "upperAscii c = (if 97 \<le> c \<and> c \<le> 122 then c - 32 else c)"

definition anyOf :: "string \<Rightarrow> rx" where
  "anyOf cs = Chr (\<lambda>c. c \<in> set (js cs))"

definition anyOfI :: "string \<Rightarrow> rx" where
  "anyOfI cs = Chr (\<lambda>c. upperAscii c \<in> set (map upperAscii (js cs)))"

definition rxseq :: "rx list \<Rightarrow> rx" where
  "rxseq rs = foldr Cat rs Eps"

fun rxalt :: "rx list \<Rightarrow> rx" where
  "rxalt [] = Chr (\<lambda>c. False)"
| "rxalt [r] = r"
| "rxalt (r # rs) = Alt r (rxalt rs)"

definition str :: "string \<Rightarrow> rx" where
  "str cs = rxseq (map (\<lambda>c. Chr (\<lambda>d. d = ch c)) cs)"

definition strI :: "string \<Rightarrow> rx" where
  "strI cs = rxseq (map (\<lambda>c. Chr (\<lambda>d. upperAscii d = upperAscii (ch c))) cs)"

definition rxopt :: "rx \<Rightarrow> rx" where "rxopt r = Rep 0 (Some 1) r"
definition rxstar :: "rx \<Rightarrow> rx" where "rxstar r = Rep 0 None r"
definition rxplus :: "rx \<Rightarrow> rx" where "rxplus r = Rep 1 None r"

definition rxspace :: rx where "rxspace = Chr isSpace"
definition rxdigit :: rx where "rxdigit = Chr isDigit"

section \<open>Further string operations\<close>

text \<open>
  \<^verbatim>\<open>toLowerCase\<close>.  ASCII capitals go to small letters; U+0130 goes to \<^verbatim>\<open>i\<close> followed by
  U+0307, and U+212A (the Kelvin sign) to \<^verbatim>\<open>k\<close>: these are the only code points outside
  ASCII whose lower case contains an ASCII character.  Every other code unit from 128 on
  is mapped by Unicode to code units from 128 on, none of them a currency sign; the model
  leaves them as they are, which no test of this program can tell apart, since all its
  keywords and patterns consist of ASCII characters and currency signs.
\<close>

definition lowerUnit :: "jschar \<Rightarrow> jsstring" where
  "lowerUnit c = (if 65 \<le> c \<and> c \<le> 90 then [c + 32]
                  else if c = 304 then [105, 775]
                  else if c = 8490 then [107]
                  else [c])"

definition toLowerCase :: "jsstring \<Rightarrow> jsstring" where
  "toLowerCase s = concat (map lowerUnit s)"

fun startsWith :: "jsstring \<Rightarrow> jsstring \<Rightarrow> bool" where
  "startsWith s [] = True"
| "startsWith [] (k # ks) = False"
| "startsWith (c # cs) (k # ks) = (c = k \<and> startsWith cs ks)"

text \<open>\<^verbatim>\<open>s.includes(k)\<close>: \<open>k\<close> occurs in \<open>s\<close> as a substring.\<close>

fun jsIncludes :: "jsstring \<Rightarrow> jsstring \<Rightarrow> bool" where
  "jsIncludes [] k = (k = [])"
| "jsIncludes (c # cs) k = (startsWith (c # cs) k \<or> jsIncludes cs k)"

text \<open>
  \<^verbatim>\<open>s.split(/[...]+/)\<close> for a class \<open>P\<close>: the pieces between the maximal runs of
  separators (an empty piece before a leading run and after a trailing one).
\<close>

function splitRuns :: "(jschar \<Rightarrow> bool) \<Rightarrow> jsstring \<Rightarrow> jsstring list" where
  "splitRuns P [] = [[]]"
| "splitRuns P (c # cs) =
     (if P c then [] # splitRuns P (dropWhile P cs)
      else (case splitRuns P cs of [] \<Rightarrow> [[c]] | p # ps \<Rightarrow> (c # p) # ps))"
  by pat_completeness auto
termination
  by (relation "measure (\<lambda>(P, s). length s)") (auto simp: length_dropWhile_le less_Suc_eq_le)

section \<open>Classifier (classifier.service.js)\<close>

text \<open>The seven types of the rule table, the only types a classified amount carries.\<close>

datatype amount_type = total_bill | paid | due | subtotal | tax | discount | service_charge

record class_rule =
  r_type :: amount_type
  r_keywords :: "jsstring list"
  r_patterns :: "rx list"
  r_priority :: nat

definition classificationRules :: "class_rule list" where
  "classificationRules =
     [\<lparr> r_type = total_bill,
         r_keywords = map js [''total amount'', ''grand total'', ''invoice total'', ''net amount'',
                            ''total'', ''t0tal'', ''t0tal:''],
         r_patterns = [rxseq [strI ''t'', anyOfI ''0o'', strI ''tal'']],
         r_priority = 10 \<rparr>,
      \<lparr> r_type = paid,
         r_keywords = map js [''amount paid'', ''paid'', ''received'', ''payment'', ''cash'',
                            ''pald'', ''pald:''],
         r_patterns = [rxseq [strI ''pa'', anyOfI ''il'', strI ''d'']],
         r_priority = 9 \<rparr>,
      \<lparr> r_type = due,
         r_keywords = map js [''balance due'', ''due'', ''balance'', ''remaining'', ''outstanding'',
                            ''due:'', ''balance:''],
         r_patterns = [rxseq [WordB, strI ''due'', WordB], rxseq [WordB, strI ''balance'', WordB]],
         r_priority = 9 \<rparr>,
      \<lparr> r_type = subtotal,
         r_keywords = map js [''subtotal'', ''sub-total'', ''sub total'', ''before tax''],
         r_patterns = [rxseq [strI ''sub'', rxstar rxspace, strI ''total'']],
         r_priority = 8 \<rparr>,
      \<lparr> r_type = tax,
         r_keywords = map js [''tax'', ''gst'', ''vat'', ''cgst'', ''sgst'', ''igst''],
         r_patterns = [rxseq [WordB, strI ''tax'', WordB], rxseq [WordB, strI ''gst'', WordB],
                     rxseq [WordB, strI ''vat'', WordB]],
         r_priority = 7 \<rparr>,
      \<lparr> r_type = discount,
         r_keywords = map js [''discount'', ''off'', ''reduction''],
         r_patterns = [strI ''discount''],
         r_priority = 6 \<rparr>,
      \<lparr> r_type = service_charge,
         r_keywords = map js [''room charges'', ''consultation'', ''lab tests'', ''medicines'',
                            ''charges''],
         r_patterns = [strI ''charges'', strI ''consultation''],
         r_priority = 5 \<rparr>]"

definition findContextSnippets :: "jsstring \<Rightarrow> jsstring list" where
  "findContextSnippets text =
     filter (\<lambda>s. 0 < length s) (map trim (splitRuns (\<lambda>c. c \<in> {ch CHR ''|'', 10, 13}) text))"

text \<open>The number part \<^verbatim>\<open>[l1IO0-9,]+(?:\.[l1IO0-9]{1,2})?\<close> of the amount patterns.\<close>

definition numberPart :: rx where
  "numberPart =
     rxseq [rxplus (anyOfI ''l1IO0123456789,''),
            rxopt (rxseq [str ''.'', Rep 1 (Some 2) (anyOfI ''l1IO0123456789'')])]"

text \<open>
  The two patterns of \<^verbatim>\<open>extractAmountsFromSnippet\<close>, flags \<^verbatim>\<open>gi\<close>: a currency marker,
  white space and the number; a colon, white space, optionally a currency marker, white
  space and the number.
\<close>

definition amountPatterns :: "rx list" where
  "amountPatterns =
     [rxseq [rxalt [rxseq [strI ''Rs'', rxopt (str ''.'')], strI ''INR'', strI ''USD'', strI ''EUR'',
                    strI ''GBP'', str ''$'', Chr (\<lambda>c. c = euro), Chr (\<lambda>c. c = pound),
                    Chr (\<lambda>c. c = rupee)],
             rxstar rxspace, Grp numberPart],
      rxseq [str '':'', rxstar rxspace,
             rxopt (rxalt [rxseq [strI ''Rs'', rxopt (str ''.'')], strI ''INR'', str ''$'',
                         Chr (\<lambda>c. c = euro), Chr (\<lambda>c. c = pound), Chr (\<lambda>c. c = rupee)]),
             rxstar rxspace, Grp numberPart]]"

record snippet_amount =
  sa_value :: jsnum
  sa_raw :: jsstring
  sa_position :: nat

text \<open>
  The replacements applied to the captured text: commas and white space are removed,
  \<^verbatim>\<open>l L i I\<close> become \<^verbatim>\<open>1\<close> and \<^verbatim>\<open>O\<close> becomes \<^verbatim>\<open>0\<close> (a small \<^verbatim>\<open>o\<close> stays).
\<close>

definition normalizeCapture :: "jsstring \<Rightarrow> jsstring" where
  "normalizeCapture valueStr =
     map (\<lambda>c. if c \<in> set (js ''lLiI'') then ch CHR ''1''
               else if c = ch CHR ''O'' then ch CHR ''0'' else c)
         (filter (\<lambda>c. \<not> (c = ch CHR '','' \<or> isSpace c)) valueStr)"

definition matchAmount :: "jsstring \<Rightarrow> rxmatch \<Rightarrow> snippet_amount list" where
  "matchAmount snippet m =
     (case m_group m of
        None \<Rightarrow> []
      | Some (i, j) \<Rightarrow>
          let valueStr = substring snippet i j
          in if valueStr = [] then []
             else let v = parseFloat (normalizeCapture valueStr)
                  in if isFinite v \<and> jlt (Fin 0) v
                     then [\<lparr> sa_value = jdiv (mathRound (jmul v (Fin 100))) (Fin 100),
                              sa_raw = substring snippet (m_index m) (m_end m),
                              sa_position = m_index m \<rparr>]
                     else [])"

text \<open>
  \<^verbatim>\<open>new Map(amounts.map(a => [a.value, a]))\<close>: a key keeps the place of its first entry
  and the value of its last one.
\<close>

fun mapSet :: "('k \<times> 'v) list \<Rightarrow> 'k \<Rightarrow> 'v \<Rightarrow> ('k \<times> 'v) list" where
  "mapSet [] k v = [(k, v)]"
| "mapSet (e # es) k v = (if fst e = k then (k, v) # es else e # mapSet es k v)"

definition extractAmountsFromSnippet :: "jsstring \<Rightarrow> snippet_amount list" where
  "extractAmountsFromSnippet snippet =
     (let amounts = concat (map (\<lambda>pattern. concat (map (matchAmount snippet)
                                                         (matchAll snippet pattern)))
                                amountPatterns)
      in map snd (foldl (\<lambda>m a. mapSet m (sa_value a) a) [] amounts))"

record type_match =
  tm_type :: amount_type
  tm_confidence :: jsnum
  tm_keywords :: "jsstring list"
  tm_patternMatched :: bool
  tm_score :: nat

text \<open>The loop over the patterns of a rule, left at the first pattern that matches.\<close>

fun patternMatched :: "rx list \<Rightarrow> jsstring \<Rightarrow> bool" where
  "patternMatched [] snippet = False"
| "patternMatched (pattern # rest) snippet =
     (if test pattern snippet then True else patternMatched rest snippet)"

definition matchedKeywords :: "class_rule \<Rightarrow> jsstring \<Rightarrow> jsstring list" where
  "matchedKeywords rule lowerSnippet =
     filter (\<lambda>keyword. jsIncludes lowerSnippet (toLowerCase keyword)) (r_keywords rule)"

text \<open>The score of one rule: the body of the loop over the rules.\<close>

definition ruleScore :: "class_rule \<Rightarrow> jsstring \<Rightarrow> nat" where
  "ruleScore rule snippet =
     foldl (\<lambda>score keyword.
              if jsIncludes (toLowerCase snippet) (toLowerCase keyword)
              then score + r_priority rule else score)
           (if patternMatched (r_patterns rule) snippet then r_priority rule * 2 else 0)
           (r_keywords rule)"

definition matchStep ::
    "jsstring \<Rightarrow> type_match option \<times> nat \<Rightarrow> class_rule \<Rightarrow> type_match option \<times> nat" where
  "matchStep snippet best rule =
     (let score = ruleScore rule snippet
      in if snd best < score
         then (Some \<lparr> tm_type = r_type rule,
                       tm_confidence = mathMin (lit (95 / 100))
                          (jadd (lit (5 / 10)) (jdiv (Fin (of_nat score)) (Fin 30))),
                       tm_keywords = matchedKeywords rule (toLowerCase snippet),
                       tm_patternMatched = patternMatched (r_patterns rule) snippet,
                       tm_score = score \<rparr>,
               score)
         else best)"

definition matchSnippetToType :: "jsstring \<Rightarrow> type_match option" where
  "matchSnippetToType snippet = fst (foldl (matchStep snippet) (None, 0) classificationRules)"

record classified =
  c_type :: amount_type
  c_value :: jsnum
  c_source :: jsstring
  c_confidence :: jsnum

record classification_detail =
  cd_amount :: jsnum
  cd_snippet :: jsstring
  cd_type :: amount_type
  cd_matched_keywords :: "jsstring list"
  cd_pattern_matched :: bool

text \<open>
  The state of the loops of \<^verbatim>\<open>classifyAmounts\<close>: \<^verbatim>\<open>amounts\<close>,
  \<^verbatim>\<open>classificationDetails\<close> and \<^verbatim>\<open>classifiedPairs\<close>.  The key
  \<^verbatim>\<open>`${type}:${matchedAmount}`\<close> of a pair is kept as the pair itself: the type names
  hold no colon and two different numbers print differently.  (\<^verbatim>\<open>amountUsage\<close> is
  written and never read, and left out.)
\<close>

record class_state =
  cs_amounts :: "classified list"
  cs_details :: "classification_detail list"
  cs_pairs :: "(amount_type \<times> jsnum) list"

definition classifyValue :: "jsnum list \<Rightarrow> jsstring \<Rightarrow> class_state \<Rightarrow> jsnum \<Rightarrow> class_state" where
  "classifyValue normalizedAmounts snippet st v =
     (case find (\<lambda>na. jlt (jabs (jsub na v)) (lit (1 / 100))) normalizedAmounts of
        None \<Rightarrow> st
      | Some matchedAmount \<Rightarrow>
          if \<not> truthy matchedAmount then st
          else (case matchSnippetToType snippet of
                  None \<Rightarrow> st
                | Some classification \<Rightarrow>
                    if jle (tm_confidence classification) (lit (5 / 10)) then st
                    else if (tm_type classification, matchedAmount) \<in> set (cs_pairs st) then st
                    else let truncatedSnippet =
                               (if 80 < length snippet then take 80 snippet @ js ''...''
                                else snippet)
                         in \<lparr> cs_amounts = cs_amounts st @
                                [\<lparr> c_type = tm_type classification, c_value = matchedAmount,
                                   c_source = js ''text: '' @ [39] @ truncatedSnippet @ [39],
                                   c_confidence = tm_confidence classification \<rparr>],
                              cs_details = cs_details st @
                                [\<lparr> cd_amount = matchedAmount, cd_snippet = snippet,
                                   cd_type = tm_type classification,
                                   cd_matched_keywords = tm_keywords classification,
                                   cd_pattern_matched = tm_patternMatched classification \<rparr>],
                              cs_pairs = cs_pairs st @ [(tm_type classification, matchedAmount)] \<rparr>))"

definition classifySnippet :: "jsnum list \<Rightarrow> class_state \<Rightarrow> jsstring \<Rightarrow> class_state" where
  "classifySnippet normalizedAmounts st snippet =
     foldl (classifyValue normalizedAmounts snippet) st
           (map sa_value (extractAmountsFromSnippet snippet))"

definition calculateClassificationConfidence :: "config \<Rightarrow> classified list \<Rightarrow> nat \<Rightarrow> jsnum" where
  "calculateClassificationConfidence cfg amounts totalAmounts =
     (if totalAmounts = 0 then Fin 0
      else let classificationRate = jdiv (Fin (of_nat (length amounts))) (Fin (of_nat totalAmounts));
               confidence = jadd (lit (4 / 10)) (jmul classificationRate (lit (3 / 10)));
               explicitMatches =
                 length (filter (\<lambda>a. \<not> jsIncludes (c_source a) (js ''heuristic'')) amounts);
               confidence =
                 (if 0 < length amounts
                  then jadd confidence
                         (jmul (jdiv (Fin (of_nat explicitMatches)) (Fin (of_nat (length amounts))))
                               (lit (3 / 10)))
                  else confidence);
               types = set (map c_type amounts);
               confidence = (if total_bill \<in> types then jadd confidence (lit (5 / 100)) else confidence);
               confidence = (if paid \<in> types then jadd confidence (lit (5 / 100)) else confidence);
               confidence = (if due \<in> types then jadd confidence (lit (5 / 100)) else confidence)
           in mathMax (orElse (minClassificationConfidence cfg) (lit (3 / 10)))
                      (mathMin (lit (95 / 100)) confidence))"

record result_amount =
  a_type :: amount_type
  a_value :: jsnum
  a_source :: jsstring

record class_result =
  amounts :: "result_amount list"
  confidence :: jsnum
  classification_details :: "classification_detail list"

text \<open>
  \<^verbatim>\<open>classifyAmounts(text, normalizedAmounts)\<close>; an argument that is absent
  (\<^verbatim>\<open>undefined\<close> or \<^verbatim>\<open>null\<close>) is \<open>None\<close>.
\<close>

definition classifyAmounts ::
    "config \<Rightarrow> jsstring option \<Rightarrow> jsnum list option \<Rightarrow> class_result" where
  "classifyAmounts cfg text normalizedAmounts =
     (if text = None \<or> text = Some [] \<or> normalizedAmounts = None \<or> normalizedAmounts = Some []
      then \<lparr> amounts = [], confidence = Fin 0, classification_details = [] \<rparr>
      else let snippets = findContextSnippets (the text);
               st = foldl (classifySnippet (the normalizedAmounts))
                      \<lparr> cs_amounts = [], cs_details = [], cs_pairs = [] \<rparr> snippets;
               conf = calculateClassificationConfidence cfg (cs_amounts st)
                        (length (the normalizedAmounts))
           in \<lparr> amounts = map (\<lambda>a. \<lparr> a_type = c_type a, a_value = c_value a,
                                       a_source = c_source a \<rparr>) (cs_amounts st),
                confidence = roundFixed2 conf,
                classification_details = cs_details st \<rparr>)"

text \<open>
  The issues of \<^verbatim>\<open>validateClassification\<close>, with the data their messages print.
\<close>

datatype issue =
    MultipleAmounts amount_type "jsnum list"
  | InconsistentAmounts jsnum jsnum jsnum

record validation =
  valid :: bool
  issues :: "issue list"

text \<open>\<^verbatim>\<open>typeMap[type]\<close>: the values of the amounts of a type, in order; absent when empty.\<close>

definition typeMap :: "result_amount list \<Rightarrow> amount_type \<Rightarrow> jsnum list" where
  "typeMap as t = map a_value (filter (\<lambda>a. a_type a = t) as)"

definition validateClassification :: "result_amount list \<Rightarrow> validation" where
  "validateClassification as =
     (let singletonIssues =
            concat (map (\<lambda>t. if typeMap as t \<noteq> [] \<and> 1 < length (typeMap as t)
                              then [MultipleAmounts t (typeMap as t)] else [])
                        [total_bill, subtotal, paid]);
          consistencyIssues =
            (if typeMap as total_bill \<noteq> [] \<and> typeMap as paid \<noteq> [] \<and> typeMap as due \<noteq> []
             then let total = hd (typeMap as total_bill);
                      paidv = hd (typeMap as paid);
                      duev = foldl mathMax NInf (typeMap as due);
                      expectedDue = jsub total paidv
                  in if jlt (Fin 1) (jabs (jsub expectedDue duev))
                     then [InconsistentAmounts total paidv duev] else []
             else []);
          issues = singletonIssues @ consistencyIssues
      in \<lparr> valid = (issues = []), issues = issues \<rparr>)"

section \<open>Token extractor (the OCR service)\<close>

text \<open>
  \<^verbatim>\<open>Array.prototype.sort\<close> with a comparison function: a stable sort (by the language
  standard since 2019, and before that by the insertion sort V8 used on short arrays).
  \<open>cmp a b \<le> 0\<close> keeps \<open>a\<close> before \<open>b\<close>.
\<close>

fun insertBy :: "('a \<Rightarrow> 'a \<Rightarrow> int) \<Rightarrow> 'a \<Rightarrow> 'a list \<Rightarrow> 'a list" where
  "insertBy cmp x [] = [x]"
| "insertBy cmp x (y # ys) = (if cmp x y \<le> 0 then x # y # ys else y # insertBy cmp x ys)"

definition sortBy :: "('a \<Rightarrow> 'a \<Rightarrow> int) \<Rightarrow> 'a list \<Rightarrow> 'a list" where
  "sortBy cmp xs = foldr (insertBy cmp) xs []"

datatype currency = INR | USD | EUR | GBP

text \<open>
  The four currency patterns, in the order of \<^verbatim>\<open>currencyHints\<close>:
  \<^verbatim>\<open>\b(?:inr|rs\.?|rupees?)\b\<close> or the rupee sign; \<^verbatim>\<open>\b(?:usd|dollars?)\b\<close> or \<^verbatim>\<open>$\<close> (this
  one without the \<^verbatim>\<open>i\<close> flag); \<^verbatim>\<open>\b(?:eur|euros?)\b\<close> or the euro sign;
  \<^verbatim>\<open>\b(?:gbp|pounds?)\b\<close> or the pound sign.
\<close>

definition currencyHints :: "(rx \<times> currency) list" where
  "currencyHints =
     [(Alt (rxseq [WordB, rxalt [strI ''inr'', rxseq [strI ''rs'', rxopt (str ''.'')],
                                 rxseq [strI ''rupee'', rxopt (strI ''s'')]], WordB])
           (Chr (\<lambda>c. c = rupee)), INR),
      (Alt (rxseq [WordB, rxalt [str ''usd'', rxseq [str ''dollar'', rxopt (str ''s'')]], WordB])
           (str ''$''), USD),
      (Alt (rxseq [WordB, rxalt [strI ''eur'', rxseq [strI ''euro'', rxopt (strI ''s'')]], WordB])
           (Chr (\<lambda>c. c = euro)), EUR),
      (Alt (rxseq [WordB, rxalt [strI ''gbp'', rxseq [strI ''pound'', rxopt (strI ''s'')]], WordB])
           (Chr (\<lambda>c. c = pound)), GBP)]"

text \<open>The entries \<^verbatim>\<open>{code, count}\<close> pushed for the patterns that match at least once.\<close>

definition currencyMatches :: "jsstring \<Rightarrow> (currency \<times> nat) list" where
  "currencyMatches text =
     (let lowerText = toLowerCase text
      in concat (map (\<lambda>(pattern, code).
                        let n = length (matchAll lowerText pattern)
                        in if 0 < n then [(code, n)] else [])
                     currencyHints))"

definition detectCurrency :: "jsstring \<Rightarrow> currency" where
  "detectCurrency text =
     (case sortBy (\<lambda>a b. int (snd b) - int (snd a)) (currencyMatches text) of
        [] \<Rightarrow> USD
      | m # _ \<Rightarrow> fst m)"

text \<open>
  The number of matches of the \<open>k\<close>-th pattern of \<^verbatim>\<open>currencyHints\<close> in the lower-cased text:
  \<^verbatim>\<open>matches.length\<close> in the \<open>k\<close>-th round of the loop of \<open>detectCurrency\<close>.
\<close>

definition hintCount :: "jsstring \<Rightarrow> nat \<Rightarrow> nat" where
  "hintCount inp k = length (matchAll (toLowerCase inp) (fst (currencyHints ! k)))"

definition monetaryKeywords :: "jsstring list" where
  "monetaryKeywords = map js
     [''subtotal'', ''total'', ''amount'', ''paid'', ''cash'', ''change'',
      ''due'', ''balance'', ''discount'', ''tax'', ''gst'', ''vat'', ''cgst'', ''sgst'',
      ''price'', ''cost'', ''bill'', ''payment'', ''charge'', ''fee'', ''charges'', ''pald'']"

text \<open>
  The seven exclusion patterns.  All carry the \<^verbatim>\<open>g\<close> flag and are kept in the service
  object, so each remembers in \<^verbatim>\<open>lastIndex\<close> where its last successful \<^verbatim>\<open>test\<close>
  ended, and \<^verbatim>\<open>matchesExcludePattern\<close> does not reset it.
\<close>

definition excludePatterns :: "rx list" where
  "excludePatterns =
     [rxseq [WordB, rxalt [strI ''invoice'', strI ''bill''], rxstar rxspace, rxopt (str ''#''),
             rxstar rxspace, rxopt (str '':''), rxstar rxspace, Rep 5 None rxdigit, WordB],
      rxseq [WordB, Rep 1 (Some 2) rxdigit, anyOf ''/-.'', Rep 1 (Some 2) rxdigit, anyOf ''/-.'',
             Rep 2 (Some 4) rxdigit, WordB],
      rxseq [WordB, Rep 1 (Some 2) rxdigit, str '':'', Rep 2 (Some 2) rxdigit,
             rxopt (rxseq [str '':'', Rep 2 (Some 2) rxdigit]), rxstar rxspace,
             rxopt (rxalt [strI ''am'', strI ''pm''])],
      rxseq [strI ''patient'', rxstar rxspace, rxalt [strI ''name'', strI ''id''], rxstar rxspace,
             rxopt (str '':''), rxstar rxspace, rxplus rxdigit],
      rxseq [strI ''doctor'', rxstar rxspace, rxalt [strI ''name'', strI ''id''], rxstar rxspace,
             rxopt (str '':''), rxstar rxspace, rxplus rxdigit],
      rxseq [strI ''room'', rxstar rxspace, rxalt [strI ''no'', strI ''number''], rxstar rxspace,
             rxopt (str '':''), rxstar rxspace, rxplus rxdigit],
      rxseq [WordB, rxalt [strI ''phone'', strI ''tel'', strI ''mobile'', strI ''contact''],
             rxstar rxspace, rxopt (str '':''), rxstar rxspace, Rep 10 None rxdigit]]"

fun firstMatch :: "jsstring \<Rightarrow> rx \<Rightarrow> nat \<Rightarrow> nat list \<Rightarrow> rxmatch option" where
  "firstMatch s r i [] = None"
| "firstMatch s r i (p # ps) =
     (if p < i then firstMatch s r i ps
      else (case rxm s r p of
              [] \<Rightarrow> firstMatch s r i ps
            | x # _ \<Rightarrow> Some \<lparr> m_index = p, m_end = fst x, m_group = snd x \<rparr>))"

text \<open>
  \<^verbatim>\<open>r.test(s)\<close> for a pattern with the \<^verbatim>\<open>g\<close> flag whose \<^verbatim>\<open>lastIndex\<close> is \<open>i\<close>: the
  search starts at \<open>i\<close>; a match leaves \<^verbatim>\<open>lastIndex\<close> at its end, a failure at 0.
\<close>

definition testGlobal :: "rx \<Rightarrow> nat \<Rightarrow> jsstring \<Rightarrow> bool \<times> nat" where
  "testGlobal r i s =
     (if length s < i then (False, 0)
      else (case firstMatch s r i [0..<Suc (length s)] of
              None \<Rightarrow> (False, 0)
            | Some m \<Rightarrow> (True, m_end m)))"

text \<open>
  \<^verbatim>\<open>matchesExcludePattern\<close>: the patterns with their \<^verbatim>\<open>lastIndex\<close> values, tested in
  order up to the first that matches; the result and the new \<^verbatim>\<open>lastIndex\<close> values.
\<close>

fun matchesExcludePattern :: "rx list \<Rightarrow> nat list \<Rightarrow> jsstring \<Rightarrow> bool \<times> nat list" where
  "matchesExcludePattern (pattern # ps) (i # is) line =
     (let (hit, i') = testGlobal pattern i line
      in if hit then (True, i' # is)
         else (let (res, is') = matchesExcludePattern ps is line in (res, i' # is')))"
| "matchesExcludePattern _ is line = (False, is)"

fun anyKeyword :: "jsstring list \<Rightarrow> jsstring \<Rightarrow> bool" where
  "anyKeyword [] lowerLine = False"
| "anyKeyword (keyword # rest) lowerLine =
     (if jsIncludes lowerLine keyword then True else anyKeyword rest lowerLine)"

definition currencyMarker :: rx where
  "currencyMarker = rxalt [rxseq [strI ''Rs'', rxopt (str ''.'')], strI ''INR'', str ''$'',
                           Chr (\<lambda>c. c = euro), Chr (\<lambda>c. c = pound), Chr (\<lambda>c. c = rupee)]"

definition isMonetaryLine :: "nat list \<Rightarrow> jsstring \<Rightarrow> bool \<times> nat list" where
  "isMonetaryLine st line =
     (let lowerLine = toLowerCase line;
          (excluded, st') = matchesExcludePattern excludePatterns st line
      in if excluded then (False, st')
         else if anyKeyword monetaryKeywords lowerLine then (True, st')
         else if test (Chr (\<lambda>c. c = ch CHR ''$'' \<or> c = euro \<or> c = pound \<or> c = rupee)) line
                 \<or> test (rxseq [strI ''rs'', rxopt (str ''.''), rxspace]) line then (True, st')
         else if test (rxseq [str '':'', rxstar rxspace, rxopt currencyMarker, rxstar rxspace,
                              rxplus (anyOfI ''l1IO0123456789,'')]) line then (True, st')
         else (False, st'))"

text \<open>
  The pattern of \<^verbatim>\<open>extractNumericTokensFromText\<close>, flags \<^verbatim>\<open>gi\<close>: a currency marker or
  a colon, white space, and the number.
\<close>

definition tokenPattern :: rx where
  "tokenPattern =
     rxseq [rxalt [rxseq [strI ''Rs'', rxopt (str ''.'')], strI ''INR'', strI ''USD'', strI ''EUR'',
                   strI ''GBP'', str ''$'', Chr (\<lambda>c. c = euro), Chr (\<lambda>c. c = pound),
                   Chr (\<lambda>c. c = rupee), str '':''],
            rxstar rxspace, Grp numberPart]"

text \<open>
  The body of the loop over the matches of a segment: the tokens so far and the set
  \<^verbatim>\<open>seenValues\<close> of corrected texts.
\<close>

definition tokenStep ::
    "jsstring \<Rightarrow> jsstring list \<times> jsstring list \<Rightarrow> rxmatch \<Rightarrow> jsstring list \<times> jsstring list" where
  "tokenStep segment acc m =
     (case m_group m of
        None \<Rightarrow> acc
      | Some (i, j) \<Rightarrow>
          let token = trim (substring segment i j)
          in if token = [] then acc
             else let normalizedValue = normalizeCapture token
                  in if normalizedValue = [] then acc
                     else if ch CHR ''%'' \<in> set token \<or> ch CHR ''%'' \<in> set normalizedValue then acc
                     else let testValue = parseFloat normalizedValue
                          in if \<not> isFinite testValue \<or> jle testValue (Fin 0) then acc
                             else if jlt testValue (Fin 1) then acc
                             else if normalizedValue \<in> set (snd acc) then acc
                             else (fst acc @ [token], snd acc @ [normalizedValue]))"

definition segmentStep ::
    "(jsstring list \<times> jsstring list) \<times> nat list \<Rightarrow> jsstring
       \<Rightarrow> (jsstring list \<times> jsstring list) \<times> nat list" where
  "segmentStep acc segment =
     (let (monetary, st') = isMonetaryLine (snd acc) segment
      in if \<not> monetary then (fst acc, st')
         else (foldl (tokenStep segment) (fst acc) (matchAll segment tokenPattern), st'))"

definition extractNumericTokensFromText :: "nat list \<Rightarrow> jsstring \<Rightarrow> jsstring list \<times> nat list" where
  "extractNumericTokensFromText st text =
     (let segments = findContextSnippets text;
          res = foldl segmentStep (([], []), st) segments
      in (fst (fst res), snd res))"

definition calculateConfidence :: "config \<Rightarrow> jsnum \<Rightarrow> nat \<Rightarrow> jsstring \<Rightarrow> jsnum" where
  "calculateConfidence cfg ocrConfidence tokenCount text =
     (if tokenCount = 0 then Fin 0
      else let confidence = (if jlt (Fin 0) ocrConfidence then ocrConfidence else lit (8 / 10));
               confidence =
                 (if 2 \<le> tokenCount \<and> tokenCount \<le> 10
                  then mathMin (lit (95 / 100)) (jadd confidence (lit (1 / 10)))
                  else if tokenCount = 1 then jmul confidence (lit (9 / 10))
                  else if 15 < tokenCount then jmul confidence (lit (8 / 10))
                  else confidence);
               monetaryKeywordCount =
                 length (filter (\<lambda>kw. jsIncludes (toLowerCase text) kw) monetaryKeywords);
               confidence =
                 (if 2 \<le> monetaryKeywordCount
                  then mathMin (lit (95 / 100)) (jadd confidence (lit (5 / 100)))
                  else confidence)
           in mathMax (orElse (minOcrConfidence cfg) (lit (5 / 10)))
                      (mathMin (lit (95 / 100)) confidence))"

record ocr_result =
  raw_tokens :: "jsstring list"
  currency_hint :: "currency option"
  ocr_confidence :: jsnum
  extracted_text :: jsstring

text \<open>
  The outside world of one request: the configuration, the decoding of a base64 image
  to a buffer, the OCR engine (\<^verbatim>\<open>imageBufferToText\<close>, which returns the trimmed text and
  the confidence divided by 100, or throws), and the LLM validator when it is enabled.
\<close>

type_synonym buffer = "nat list"

record llm_validation =
  llm_validated :: bool
  llm_valid :: bool
  llm_issues :: "jsstring list"
  llm_suggestions :: "jsstring list"

record env =
  e_config :: config
  e_decode :: "jsstring \<Rightarrow> buffer"
  e_imageBufferToText :: "buffer \<Rightarrow> jsstring + (jsstring \<times> jsnum)"
  e_llm :: "(jsstring \<Rightarrow> result_amount list \<Rightarrow> llm_validation) option"

record request =
  q_text :: "jsstring option"
  q_image_base64 :: "jsstring option"
  q_fileBuffer :: "buffer option"

text \<open>
  \<^verbatim>\<open>extractFromTextOrImage\<close>; \<open>Inl\<close> is the error thrown when the OCR engine fails.
  \<open>st\<close> holds the \<^verbatim>\<open>lastIndex\<close> values of the exclusion patterns.
\<close>

definition extractFromTextOrImage ::
    "env \<Rightarrow> nat list \<Rightarrow> request \<Rightarrow> (jsstring + ocr_result) \<times> nat list" where
  "extractFromTextOrImage e st q =
     (let text0 = (case q_text q of None \<Rightarrow> [] | Some t \<Rightarrow> t);
          buffer = (case q_fileBuffer q of
                      Some b \<Rightarrow> Some b
                    | None \<Rightarrow> (case q_image_base64 q of
                                 None \<Rightarrow> None
                               | Some i \<Rightarrow> if i = [] then None else Some (e_decode e i)));
          ocr = (case buffer of
                   None \<Rightarrow> Inr (text0, Fin 0)
                 | Some b \<Rightarrow>
                     (case e_imageBufferToText e b of
                        Inl err \<Rightarrow> Inl err
                      | Inr (t, c) \<Rightarrow> Inr (if text0 \<noteq> [] then text0 @ [10] @ t else t, c)))
      in case ocr of
           Inl err \<Rightarrow> (Inl err, st)
         | Inr (extractedText, ocrConfidence) \<Rightarrow>
             if extractedText = [] \<or> trim extractedText = []
             then (Inr \<lparr> raw_tokens = [], currency_hint = None, ocr_confidence = Fin 0,
                         extracted_text = [] \<rparr>, st)
             else let (rawTokens, st') = extractNumericTokensFromText st extractedText;
                      currencyHint = detectCurrency extractedText;
                      conf = calculateConfidence (e_config e) ocrConfidence (length rawTokens)
                               extractedText
                  in (Inr \<lparr> raw_tokens = rawTokens, currency_hint = Some currencyHint,
                              ocr_confidence = roundFixed2 conf,
                              extracted_text = extractedText \<rparr>, st'))"

section \<open>Pipeline orchestrator (the route /final)\<close>

text \<open>
  \<^verbatim>\<open>sanitizeText\<close> removes the control characters other than tab, line feed and
  carriage return.
\<close>

definition sanitizeText :: "jsstring \<Rightarrow> jsstring" where
  "sanitizeText text =
     filter (\<lambda>c. \<not> (c \<le> 8 \<or> c = 11 \<or> c = 12 \<or> (14 \<le> c \<and> c \<le> 31) \<or> c = 127)) text"

record metadata =
  extraction_confidence :: jsnum
  normalization_confidence_m :: jsnum
  classification_confidence :: jsnum
  total_tokens_extracted :: nat
  amounts_normalized :: nat
  amounts_classified :: nat

text \<open>
  What the handler answers: the 400 answer for a request without input, an error passed
  on to the error handler, one of the two guardrail results, or the final output.
\<close>

datatype response =
    MissingInput
  | Failed jsstring
  | NoAmountsFound jsstring jsstring
  | NormalizationFailed jsstring "jsstring list" jsstring
  | Ok "currency option" "result_amount list" metadata "llm_validation option"

definition present :: "'a list option \<Rightarrow> bool" where
  "present x \<longleftrightarrow> x \<noteq> None \<and> x \<noteq> Some []"

definition finalRoute :: "env \<Rightarrow> nat list \<Rightarrow> request \<Rightarrow> response \<times> nat list" where
  "finalRoute e st q =
     (if \<not> present (q_text q) \<and> \<not> present (q_image_base64 q) \<and> q_fileBuffer q = None
      then (MissingInput, st)
      else let sanitizedText = (if present (q_text q) then Some (sanitizeText (the (q_text q)))
                                else None);
               (extraction, st') = extractFromTextOrImage e st (q \<lparr> q_text := sanitizedText \<rparr>)
           in case extraction of
                Inl err \<Rightarrow> (Failed err, st')
              | Inr ocrResult \<Rightarrow>
                  if raw_tokens ocrResult = []
                  then (NoAmountsFound (js ''document too noisy or contains no numeric amounts'')
                          (extracted_text ocrResult), st')
                  else let normalizedResult = normalizeTokens (e_config e) (raw_tokens ocrResult)
                       in if normalized_amounts normalizedResult = []
                          then (NormalizationFailed
                                  (js ''could not parse any valid numeric amounts from extracted tokens'')
                                  (raw_tokens ocrResult) (extracted_text ocrResult), st')
                          else let text = (if extracted_text ocrResult \<noteq> [] then extracted_text ocrResult
                                           else (case sanitizedText of None \<Rightarrow> [] | Some t \<Rightarrow> t));
                                   classifiedResult = classifyAmounts (e_config e) (Some text)
                                                        (Some (normalized_amounts normalizedResult));
                                   outAmounts = map (\<lambda>a. a \<lparr> a_source :=
                                                       (if a_source a \<noteq> [] then a_source a
                                                        else js ''inferred'') \<rparr>)
                                                    (amounts classifiedResult);
                                   meta = \<lparr> extraction_confidence = ocr_confidence ocrResult,
                                            normalization_confidence_m =
                                              normalization_confidence normalizedResult,
                                            classification_confidence = confidence classifiedResult,
                                            total_tokens_extracted = length (raw_tokens ocrResult),
                                            amounts_normalized =
                                              length (normalized_amounts normalizedResult),
                                            amounts_classified = length (amounts classifiedResult) \<rparr>;
                                   llm = (case e_llm e of
                                            None \<Rightarrow> None
                                          | Some validate \<Rightarrow>
                                              let v = validate text outAmounts
                                              in if llm_validated v then Some v else None)
                               in (Ok (currency_hint ocrResult) outAmounts meta llm, st'))"

text \<open>The \<^verbatim>\<open>bestMatch\<close> object that \<open>matchStep\<close> builds from a rule.\<close>

definition bestOf :: "jsstring \<Rightarrow> class_rule \<Rightarrow> type_match" where
  "bestOf snippet r =
     \<lparr> tm_type = r_type r,
       tm_confidence = mathMin (lit (95 / 100))
          (jadd (lit (5 / 10)) (jdiv (Fin (of_nat (ruleScore r snippet))) (Fin 30))),
       tm_keywords = matchedKeywords r (toLowerCase snippet),
       tm_patternMatched = patternMatched (r_patterns r) snippet,
       tm_score = ruleScore r snippet \<rparr>"

text \<open>
  The invariant of the loops of \<open>classifyAmounts\<close>: every recorded value is a finite
  element of the list of normalized amounts, the recorded pairs are those of the recorded
  amounts, and no pair is recorded twice.
\<close>

definition classInv :: "jsnum list \<Rightarrow> class_state \<Rightarrow> bool" where
  "classInv nas st \<longleftrightarrow>
     (\<forall>a\<in>set (cs_amounts st). c_value a \<in> set nas \<and> (\<exists>x. c_value a = Fin x))
     \<and> map (\<lambda>a. (c_type a, c_value a)) (cs_amounts st) = cs_pairs st
     \<and> distinct (cs_pairs st)"

text \<open>The amount recorded for the snippet \<^verbatim>\<open>Total: 5000\<close> and the value 5000.\<close>

definition totalEntry :: classified where
  "totalEntry = \<lparr> c_type = total_bill, c_value = Fin 5000,
       c_source = js ''text: '' @ [39] @ js ''Total: 5000'' @ [39],
       c_confidence = Fin (4278419646001971 / 4503599627370496) \<rparr>"

text \<open>A request that carries a text and neither an image nor an uploaded file.\<close>

definition textOnly :: "jsstring \<Rightarrow> request" where
  "textOnly t = \<lparr> q_text = Some t, q_image_base64 = None, q_fileBuffer = None \<rparr>"

text \<open>
  An environment with the default configuration, no OCR engine that succeeds and the
  LLM validator disabled.
\<close>

definition noCollaborators :: env where
  "noCollaborators = \<lparr> e_config = defaultConfig, e_decode = (\<lambda>i. []),
                         e_imageBufferToText = (\<lambda>b. Inl []), e_llm = None \<rparr>"

text \<open>
  Three input texts: one without any number, one whose only token is a lone letter,
  and one with the same total on two segments.
\<close>

definition noNumbers :: jsstring where
  "noNumbers = js ''This is a document with no numbers or amounts in it at all.''"

definition onlyLetter :: jsstring where
  "onlyLetter = js ''Total: l''"

definition totalTwice :: jsstring where
  "totalTwice = js ''Total: 5000|Total: 5000''"

section \<open>Rounding to double precision is exact on small integers\<close>


lemma ilog2_bounds: "0 < n \<Longrightarrow> 2 ^ ilog2 n \<le> n \<and> n < 2 ^ Suc (ilog2 n)"
proof (induction n rule: ilog2.induct)
  case (1 n)
  show ?case
  proof (cases "n < 2")
    case True
    with 1(2) have "n = 1" by simp
    then show ?thesis by (simp add: ilog2.simps)
  next
    case False
    then have pos: "0 < n div 2" by simp
    from 1(1)[OF False pos] have a: "2 ^ ilog2 (n div 2) \<le> n div 2" and b: "n div 2 < 2 ^ Suc (ilog2 (n div 2))" by simp_all
    have e: "ilog2 n = Suc (ilog2 (n div 2))" using False by (subst ilog2.simps) simp
    from a have "2 * 2 ^ ilog2 (n div 2) \<le> n" by linarith
    moreover from b have "n < 2 * 2 ^ Suc (ilog2 (n div 2))" by linarith
    ultimately show ?thesis by (simp add: e)
  qed
qed

lemma roundHalfEven_of_int: "roundHalfEven (of_int k) = k"
  by (simp add: roundHalfEven_def)

lemma fl_of_nat:
  assumes "n < 2 ^ 53"
  shows "fl (of_nat n) = Fin (of_nat n)"
proof (cases "n = 0")
  case True
  then show ?thesis by (simp add: fl_def)
next
  case False
  then have pos: "0 < n" by simp
  define e where "e = ilog2 n"
  from ilog2_bounds[OF pos] have lo: "2 ^ e \<le> n" and hi: "n < 2 ^ Suc e" by (simp_all add: e_def)
  have e52: "e \<le> 52"
  proof (rule ccontr)
    assume "\<not> e \<le> 52"
    then have "53 \<le> e" by simp
    then have "(2::nat) ^ 53 \<le> 2 ^ e" by (rule power_increasing) simp
    with lo assms show False by linarith
  qed
  have one: "(1::rat) \<le> of_nat n" using pos by simp
  have fl2: "floorLog2 (of_nat n) = int e"
    using one by (simp add: floorLog2_def e_def)
  have u: "pow2 (int e - 52) = 1 / 2 ^ (52 - e)"
  proof (cases "e = 52")
    case True
    then show ?thesis by (simp add: pow2_def)
  next
    case False
    with e52 have "e < 52" by simp
    then have "nat (52 - int e) = 52 - e" by simp
    with \<open>e < 52\<close> show ?thesis by (simp add: pow2_def)
  qed
  have quot: "(of_nat n :: rat) / (1 / 2 ^ (52 - e)) = of_int (int (n * 2 ^ (52 - e)))"
    by simp
  have r: "of_int (roundHalfEven ((of_nat n :: rat) / (1 / 2 ^ (52 - e)))) * (1 / 2 ^ (52 - e)) = (of_nat n :: rat)"
    unfolding quot roundHalfEven_of_int by simp
  have "(of_nat n :: rat) < of_nat (2 ^ 53)" using assms by (simp only: of_nat_less_iff)
  also have "\<dots> \<le> 2 ^ 1024" by simp
  finally have small: "\<not> pow2 1024 \<le> (of_nat n :: rat)" by (simp add: pow2_def)
  have m: "max (int e) (- 1022) = int e" by simp
  have ab: "\<bar>of_nat n :: rat\<bar> = of_nat n" by simp
  have nz: "(of_nat n :: rat) \<noteq> 0" "(0::rat) < of_nat n" using pos by simp_all
  show ?thesis
    unfolding fl_def Let_def ab fl2 m u r using nz small by simp
qed

lemma mathRound_of_int: "mathRound (Fin (of_int k)) = Fin (of_int k)"
proof -
  have "\<lfloor>(of_int k :: rat) + 1 / 2\<rfloor> = k" by linarith
  then show ?thesis by simp
qed

lemma mathRound_numeral: "mathRound (Fin (numeral k)) = Fin (numeral k)"
  using mathRound_of_int[of "numeral k"] by simp


lemma fl_numeral: "numeral k < (9007199254740992::nat) \<Longrightarrow> fl (numeral k) = Fin (numeral k)"
  using fl_of_nat[of "numeral k"] by simp

lemma fl_0: "fl 0 = Fin 0" by (simp add: fl_def)
lemma fl_1: "fl 1 = Fin 1" using fl_of_nat[of 1] by simp

lemma fl_cent: "fl (1/100) = Fin (5764607523034235 / 576460752303423488)" by code_simp

section \<open>The correction loop as a recursion\<close>

lemma correctChar_mid:
  "correctChar (p @ c # cs) (length p) =
     (if digitCorrections c \<noteq> None \<and>
         ((p \<noteq> [] \<and> isDigit (last p)) \<or> (cs \<noteq> [] \<and> isDigit (hd cs)))
      then [the (digitCorrections c)]
      else if isNumericChar c then [c] else [])"
proof -
  have prev: "(0 < length p \<and> isDigit ((p @ c # cs) ! (length p - 1))) = (p \<noteq> [] \<and> isDigit (last p))"
    by (cases p rule: rev_cases) (simp_all add: nth_append)
  have nxt: "(length p < length (p @ c # cs) - 1 \<and> isDigit ((p @ c # cs) ! (length p + 1)))
               = (cs \<noteq> [] \<and> isDigit (hd cs))"
    by (cases cs) (simp_all add: nth_append)
  have cur: "(p @ c # cs) ! length p = c" by simp
  show ?thesis
    unfolding correctChar_def hasAdjacentDigit_def Let_def prev nxt cur by auto
qed

lemma foldl_correct_scan:
  "foldl (\<lambda>result i. result @ correctChar (p @ s) i) acc [length p..<length p + length s]
     = acc @ scan (if p = [] then None else Some (last p)) s"
proof (induction s arbitrary: p acc)
  case Nil
  then show ?case by simp
next
  case (Cons c cs)
  have idx: "[length p..<length p + length (c # cs)] = length p # [length (p @ [c])..<length (p @ [c]) + length cs]"
    by (simp add: upt_rec)
  have app: "p @ c # cs = (p @ [c]) @ cs" by simp
  have step: "foldl (\<lambda>result i. result @ correctChar (p @ c # cs) i) (acc @ correctChar (p @ c # cs) (length p))
                 [length (p @ [c])..<length (p @ [c]) + length cs]
             = (acc @ correctChar (p @ c # cs) (length p)) @ scan (Some c) cs"
    using Cons.IH[of "p @ [c]" "acc @ correctChar (p @ c # cs) (length p)"]
    unfolding app by simp
  have X: "scan (if p = [] then None else Some (last p)) (c # cs)
             = correctChar (p @ c # cs) (length p) @ scan (Some c) cs"
    unfolding correctChar_mid by (cases cs; cases "p = []") (simp_all add: Let_def)
  show ?case
    unfolding idx foldl_Cons step X by simp
qed

lemma correctDigits_scan: "correctDigits fixed = scan None fixed"
  using foldl_correct_scan[of "[]" fixed "[]"] by (simp add: correctDigits_def)

lemma foldl_append_concat:
  "foldl (\<lambda>result i. result @ f i) acc xs = acc @ concat (map f xs)"
  by (induction xs arbitrary: acc) simp_all

lemma correctDigits_concat: "correctDigits fixed = concat (map (correctChar fixed) [0..<length fixed])"
  by (simp add: correctDigits_def foldl_append_concat)

lemmas str_eval = js_def trim_def isSpace_def isCurrencySymbol_def isDigit_def isNumericChar_def
  digitCorrections_def euro_def pound_def rupee_def correctDigits_scan Let_def


section \<open>Digit correction\<close>


lemma digitCorrections_digit:
  assumes "digitCorrections c = Some d"
  shows "isDigit d"
proof -
  from assms have "(c, d) \<in> set
     [(ch CHR ''l'', ch CHR ''1''), (ch CHR ''L'', ch CHR ''1''),
      (ch CHR ''I'', ch CHR ''1''), (ch CHR ''i'', ch CHR ''1''),
      (ch CHR ''O'', ch CHR ''0''), (ch CHR ''o'', ch CHR ''0''), (ch CHR ''D'', ch CHR ''0''),
      (ch CHR ''S'', ch CHR ''5''), (ch CHR ''s'', ch CHR ''5''),
      (ch CHR ''Z'', ch CHR ''2''), (ch CHR ''z'', ch CHR ''2''),
      (ch CHR ''B'', ch CHR ''8''), (ch CHR ''b'', ch CHR ''8''),
      (ch CHR ''G'', ch CHR ''6''), (ch CHR ''g'', ch CHR ''6''),
      (ch CHR ''T'', ch CHR ''7''), (ch CHR ''t'', ch CHR ''7'')]"
    unfolding digitCorrections_def by (rule map_of_SomeD)
  then show ?thesis by (auto simp: isDigit_def)
qed

lemma splitOn_no_sep: "sep \<notin> set xs \<Longrightarrow> splitOn sep xs = [xs]"
  by (induction xs) auto

lemma filter_concat_map: "filter P (concat (map f xs)) = concat (map (\<lambda>x. filter P (f x)) xs)"
  by (induction xs) simp_all

lemma concat_map_all: "(\<And>x. \<forall>c\<in>set (f x). P c) \<Longrightarrow> \<forall>c\<in>set (concat (map f xs)). P c"
  by (induction xs) auto

lemma dot_is_symbol: "isCurrencySymbol (ch CHR ''.'')"
  by (simp add: isCurrencySymbol_def js_def)

lemma correctChar_filtered:
  assumes "i < length s" and "ch CHR ''.'' \<notin> set s"
  shows "filter (\<lambda>c. isDigit c \<or> c = ch CHR ''.'') (filter (\<lambda>c. c \<noteq> ch CHR '','') (correctChar s i))
         = (if digitCorrections (s ! i) \<noteq> None \<and> hasAdjacentDigit s i
            then [the (digitCorrections (s ! i))]
            else if isDigit (s ! i) then [s ! i] else [])"
proof (cases "digitCorrections (s ! i)")
  case None
  from assms have "s ! i \<noteq> ch CHR ''.''" by (metis nth_mem)
  with None show ?thesis
    by (auto simp: correctChar_def Let_def isNumericChar_def isDigit_def)
next
  case (Some d)
  from assms have nd: "s ! i \<noteq> ch CHR ''.''" by (metis nth_mem)
  from digitCorrections_digit[OF Some] have "isDigit d" .
  then have "d \<noteq> ch CHR '',''" by (auto simp: isDigit_def)
  with Some \<open>isDigit d\<close> nd show ?thesis
    by (auto simp: correctChar_def Let_def isNumericChar_def isDigit_def)
qed

lemma trim_subset: "set (trim s) \<subseteq> set s"
proof
  fix x assume "x \<in> set (trim s)"
  then have "x \<in> set (dropWhile isSpace (rev (dropWhile isSpace s)))" by (simp add: trim_def)
  then have "x \<in> set (rev (dropWhile isSpace s))" by (rule set_dropWhileD)
  then have "x \<in> set (dropWhile isSpace s)" by simp
  then show "x \<in> set s" by (rule set_dropWhileD)
qed

lemma fixOcrDigits_positions:
  fixes token :: jsstring
  defines "s \<equiv> filter (\<lambda>c. \<not> isSpace c) (filter (\<lambda>c. \<not> isCurrencySymbol c) (trim token))"
  shows "fixOcrDigits token =
     concat (map (\<lambda>i. if digitCorrections (s ! i) \<noteq> None \<and> hasAdjacentDigit s i
                        then [the (digitCorrections (s ! i))]
                        else if isDigit (s ! i) then [s ! i] else [])
                 [0..<length s])"
proof -
  let ?out = "\<lambda>i. if digitCorrections (s ! i) \<noteq> None \<and> hasAdjacentDigit s i
                        then [the (digitCorrections (s ! i))]
                        else if isDigit (s ! i) then [s ! i] else []"
  let ?r = "concat (map ?out [0..<length s])"
  have nodot: "ch CHR ''.'' \<notin> set s"
    using dot_is_symbol by (auto simp: s_def)
  have each: "filter (\<lambda>c. isDigit c \<or> c = ch CHR ''.'') (filter (\<lambda>c. c \<noteq> ch CHR '','') (correctChar s i)) = ?out i"
    if "i \<in> set [0..<length s]" for i
  proof -
    from that have "i < length s" by simp
    from correctChar_filtered[OF this nodot] show ?thesis .
  qed
  have pass: "filter (\<lambda>c. isDigit c \<or> c = ch CHR ''.'') (filter (\<lambda>c. c \<noteq> ch CHR '','') (correctDigits s)) = ?r"
    unfolding correctDigits_concat filter_concat_map
    by (rule arg_cong[where f = concat], rule map_cong[OF refl], rule each)
  have "\<forall>c\<in>set (?out i). isDigit c" for i
    by (cases "digitCorrections (s ! i)") (auto dest: digitCorrections_digit)
  then have "\<forall>c\<in>set ?r. isDigit c" by (rule concat_map_all)
  then have digits: "isDigit c" if "c \<in> set ?r" for c using that by blast
  have "ch CHR ''.'' \<notin> set ?r"
  proof
    assume "ch CHR ''.'' \<in> set ?r"
    then have "isDigit (ch CHR ''.'')" by (rule digits)
    then show False by (simp add: isDigit_def)
  qed
  then have parts: "splitOn (ch CHR ''.'') ?r = [?r]" by (rule splitOn_no_sep)
  show ?thesis
  proof (cases "token = []")
    case True
    then show ?thesis by (simp add: fixOcrDigits_def s_def trim_def)
  next
    case False
    let ?F = "filter (\<lambda>c. isDigit c \<or> c = ch CHR ''.'') (filter (\<lambda>c. c \<noteq> ch CHR '','') (correctDigits s))"
    have eq: "fixOcrDigits token =
        (if 2 < length (splitOn (ch CHR ''.'') ?F)
         then hd (splitOn (ch CHR ''.'') ?F) @ [ch CHR ''.''] @ concat (tl (splitOn (ch CHR ''.'') ?F))
         else ?F)"
      using False unfolding fixOcrDigits_def Let_def s_def by (simp only: if_False)
    show ?thesis
      unfolding eq pass parts by simp
  qed
qed

lemma concat_all_nil: "\<forall>x\<in>set xs. f x = [] \<Longrightarrow> concat (map f xs) = []"
  by (induction xs) auto

lemma hasAdjacentDigit_no_digit: "\<forall>c\<in>set s. \<not> isDigit c \<Longrightarrow> i < length s \<Longrightarrow> \<not> hasAdjacentDigit s i"
  by (auto simp: hasAdjacentDigit_def)

lemma fixOcrDigits_no_digit:
  assumes "\<forall>c\<in>set token. \<not> isDigit c"
  shows "fixOcrDigits token = []"
proof -
  let ?s = "filter (\<lambda>c. \<not> isSpace c) (filter (\<lambda>c. \<not> isCurrencySymbol c) (trim token))"
  have sub: "set ?s \<subseteq> set token"
    using trim_subset[of token] by auto
  with assms have nd: "\<forall>c\<in>set ?s. \<not> isDigit c" by blast
  have "(if digitCorrections (?s ! i) \<noteq> None \<and> hasAdjacentDigit ?s i
         then [the (digitCorrections (?s ! i))]
         else if isDigit (?s ! i) then [?s ! i] else []) = []"
    if "i \<in> set [0..<length ?s]" for i
  proof -
    from that have i: "i < length ?s" by simp
    then have "?s ! i \<in> set ?s" by (rule nth_mem)
    with nd have "\<not> isDigit (?s ! i)" by blast
    moreover from hasAdjacentDigit_no_digit[OF nd i] have "\<not> hasAdjacentDigit ?s i" .
    ultimately show ?thesis by simp
  qed
  then show ?thesis
    unfolding fixOcrDigits_positions by (intro concat_all_nil) blast
qed

lemma letter_not_digit: "isLetter c \<Longrightarrow> \<not> isDigit c"
  by (auto simp: isLetter_def isDigit_def)

lemma parseNumeric_no_digit: "\<forall>c\<in>set token. \<not> isDigit c \<Longrightarrow> parseNumeric token = None"
  by (simp add: parseNumeric_def fixOcrDigits_no_digit)


text \<open>
  Claim C3 (the code departs from it).  The correction table holds the entries the claim
  lists, \<^verbatim>\<open>S\<close> and \<^verbatim>\<open>s\<close> to \<^verbatim>\<open>5\<close> among them, but the first replacement of
  \<open>fixOcrDigits\<close> has already removed every \<^verbatim>\<open>S\<close> and \<^verbatim>\<open>s\<close> (with \<^verbatim>\<open>R\<close>, \<^verbatim>\<open>r\<close> and the
  dot) when the correction loop runs: the stripped token never holds one, and
  \<^verbatim>\<open>fixOcrDigits("5S0")\<close> is \<^verbatim>\<open>"50"\<close>, not \<^verbatim>\<open>"550"\<close>.  For the characters that reach the loop
  the claim holds: a letter of the table becomes its digit exactly when the character
  before or after it in the stripped token is a digit, and is dropped otherwise; digits
  are kept and every other character is dropped; \<^verbatim>\<open>fixOcrDigits("l2O0")\<close> is \<^verbatim>\<open>"1200"\<close>,
  and a token made of letters only is cleaned to the empty string and parses to no number.
\<close>

theorem fixOcrDigits_strips_S_before_correcting:
  "digitCorrections (ch CHR ''S'') = Some (ch CHR ''5'')
   \<and> digitCorrections (ch CHR ''s'') = Some (ch CHR ''5'')
   \<and> fixOcrDigits (js ''5S0'') = js ''50''
   \<and> fixOcrDigits (js ''5s0'') = js ''50''
   \<and> ch CHR ''S'' \<notin> set (filter (\<lambda>c. \<not> isSpace c) (filter (\<lambda>c. \<not> isCurrencySymbol c) (trim token)))
   \<and> ch CHR ''s'' \<notin> set (filter (\<lambda>c. \<not> isSpace c) (filter (\<lambda>c. \<not> isCurrencySymbol c) (trim token)))
   \<and> (let s = filter (\<lambda>c. \<not> isSpace c) (filter (\<lambda>c. \<not> isCurrencySymbol c) (trim token))
      in fixOcrDigits token =
         concat (map (\<lambda>i. if digitCorrections (s ! i) \<noteq> None \<and> hasAdjacentDigit s i
                            then [the (digitCorrections (s ! i))]
                            else if isDigit (s ! i) then [s ! i] else [])
                     [0..<length s]))
   \<and> map digitCorrections (js ''lLIiOoDSsZzBbGgTt'') = map Some (js ''11110005522886677'')
   \<and> (\<forall>c. c \<notin> set (js ''lLIiOoDSsZzBbGgTt'') \<longrightarrow> digitCorrections c = None)
   \<and> fixOcrDigits (js ''l2O0'') = js ''1200''
   \<and> ((\<forall>c\<in>set token. isLetter c) \<longrightarrow> fixOcrDigits token = [] \<and> parseNumeric token = None)"
proof -
  have t1: "digitCorrections (ch CHR ''S'') = Some (ch CHR ''5'')"
    and t2: "digitCorrections (ch CHR ''s'') = Some (ch CHR ''5'')"
    by (simp_all add: digitCorrections_def)
  have e1: "fixOcrDigits (js ''5S0'') = js ''50''" and e2: "fixOcrDigits (js ''5s0'') = js ''50''"
    by (simp_all add: fixOcrDigits_def str_eval)
  have sym: "isCurrencySymbol (ch CHR ''S'')" "isCurrencySymbol (ch CHR ''s'')"
    by (simp_all add: isCurrencySymbol_def js_def)
  have n1: "ch CHR ''S'' \<notin> set (filter (\<lambda>c. \<not> isSpace c) (filter (\<lambda>c. \<not> isCurrencySymbol c) (trim token)))"
    using sym(1) by auto
  have n2: "ch CHR ''s'' \<notin> set (filter (\<lambda>c. \<not> isSpace c) (filter (\<lambda>c. \<not> isCurrencySymbol c) (trim token)))"
    using sym(2) by auto
  have a: "map digitCorrections (js ''lLIiOoDSsZzBbGgTt'') = map Some (js ''11110005522886677'')"
    by (simp add: js_def digitCorrections_def)
  have b: "\<forall>c. c \<notin> set (js ''lLIiOoDSsZzBbGgTt'') \<longrightarrow> digitCorrections c = None"
    by (simp add: js_def digitCorrections_def)
  have c: "fixOcrDigits (js ''l2O0'') = js ''1200''"
    by (simp add: fixOcrDigits_def str_eval)
  have d: "(\<forall>c\<in>set token. isLetter c) \<longrightarrow> fixOcrDigits token = [] \<and> parseNumeric token = None"
    using letter_not_digit fixOcrDigits_no_digit parseNumeric_no_digit by blast
  show ?thesis
    unfolding Let_def
    by (intro conjI, rule t1, rule t2, rule e1, rule e2, rule n1, rule n2,
        rule fixOcrDigits_positions, rule a, rule b, rule c, rule d)
qed

theorem fixOcrDigits_strips_S_before_correcting_witness:
  "fixOcrDigits (js ''5S0'') = js ''50''
   \<and> ch CHR ''S'' \<notin> set (filter (\<lambda>c. \<not> isSpace c)
                            (filter (\<lambda>c. \<not> isCurrencySymbol c) (trim (js ''5S0''))))
   \<and> list_all isLetter (js ''Hello'')
   \<and> fixOcrDigits (js ''Hello'') = [] \<and> parseNumeric (js ''Hello'') = None"
proof -
  have h: "\<forall>c\<in>set (js ''Hello''). isLetter c"
    by (simp add: js_def isLetter_def)
  from fixOcrDigits_strips_S_before_correcting[of "js ''Hello''"]
  have "(\<forall>c\<in>set (js ''Hello''). isLetter c)
        \<longrightarrow> fixOcrDigits (js ''Hello'') = [] \<and> parseNumeric (js ''Hello'') = None"
    by (elim conjE)
  with h have l: "fixOcrDigits (js ''Hello'') = [] \<and> parseNumeric (js ''Hello'') = None" by blast
  from fixOcrDigits_strips_S_before_correcting[of "js ''5S0''"]
  have s: "fixOcrDigits (js ''5S0'') = js ''50''"
    by (elim conjE)
  from fixOcrDigits_strips_S_before_correcting[of "js ''5S0''"]
  have n: "ch CHR ''S'' \<notin> set (filter (\<lambda>c. \<not> isSpace c)
                            (filter (\<lambda>c. \<not> isCurrencySymbol c) (trim (js ''5S0''))))"
    by (elim conjE)
  from h have "list_all isLetter (js ''Hello'')" by (simp add: list_all_iff)
  with s n l show ?thesis by (intro conjI) (elim conjE, assumption)+
qed



section \<open>Parsing and normalizing tokens\<close>


lemma parseFloat_digits_eval:
  "parseFloat (js ''1250'') = Fin 1250" "parseFloat (js ''1200'') = Fin 1200" "parseFloat (js ''10'') = Fin 10"
  by (simp_all add: parseFloat_def js_def isSpace_def isDigit_def digitsValue_def fl_numeral Let_def)

lemma fix_eval:
  "fixOcrDigits (js ''12.50'') = js ''1250''"
  "fixOcrDigits (js ''10%'') = js ''10''"
  "fixOcrDigits (js ''l200'') = js ''1200''"
  "fixOcrDigits (js ''1200'') = js ''1200''"
  by (simp_all add: fixOcrDigits_def str_eval)

lemma round2_eval:
  "jdiv (mathRound (jmul (Fin 1250) (Fin 100))) (Fin 100) = Fin 1250"
  "jdiv (mathRound (jmul (Fin 1200) (Fin 100))) (Fin 100) = Fin 1200"
  by (simp_all add: fl_numeral mathRound_numeral del: mathRound.simps)


lemma parse_eval:
  "parseNumeric (js ''12.50'') = Some \<lparr> p_type = js ''number'', p_value = Fin 1250,
      p_original = js ''12.50'', p_normalized = js ''1250'' \<rparr>"
  "parseNumeric (js ''l200'') = Some \<lparr> p_type = js ''number'', p_value = Fin 1200,
      p_original = js ''l200'', p_normalized = js ''1200'' \<rparr>"
  "parseNumeric (js ''1200'') = Some \<lparr> p_type = js ''number'', p_value = Fin 1200,
      p_original = js ''1200'', p_normalized = js ''1200'' \<rparr>"
  "parseNumeric (js ''10%'') = None"
  unfolding parseNumeric_def Let_def fix_eval parseFloat_digits_eval round2_eval
  by (simp_all add: js_def isFinite_def fl_cent)

text \<open>
  Claim C4 (the code departs from it).  The first replacement of \<open>fixOcrDigits\<close> removes
  every dot together with the currency symbols, so no decimal point ever reaches the
  later steps that are written to keep it: \<^verbatim>\<open>"12.50"\<close> is cleaned to \<^verbatim>\<open>"1250"\<close> and
  parses to 1250, and the result of \<open>fixOcrDigits\<close> never contains a dot.
\<close>

theorem parseNumeric_loses_decimal_point:
  "fixOcrDigits (js ''12.50'') = js ''1250''
   \<and> parseNumeric (js ''12.50'') = Some \<lparr> p_type = js ''number'', p_value = Fin 1250,
         p_original = js ''12.50'', p_normalized = js ''1250'' \<rparr>
   \<and> ch CHR ''.'' \<notin> set (fixOcrDigits token)"
proof -
  have "\<forall>c\<in>set (fixOcrDigits token). isDigit c"
    unfolding fixOcrDigits_positions
    by (rule concat_map_all) (auto dest: digitCorrections_digit)
  then have "ch CHR ''.'' \<notin> set (fixOcrDigits token)"
    by (auto simp: isDigit_def)
  then show ?thesis by (simp add: fix_eval parse_eval)
qed



theorem parseNumeric_loses_decimal_point_witness:
  "ch CHR ''.'' \<notin> set (fixOcrDigits (js ''3.75''))
   \<and> p_value (the (parseNumeric (js ''12.50''))) = Fin 1250"
  using parseNumeric_loses_decimal_point[of "js ''3.75''"] by simp

lemma parseNumeric_Some:
  "parseNumeric t = Some p \<Longrightarrow> p_type p = js ''number'' \<and> p_original p = t"
  by (auto simp: parseNumeric_def Let_def split: if_splits)

lemma normalizeStep_None:
  "parseNumeric t = None \<Longrightarrow>
   normalizeStep st t = st \<lparr> ns_details := ns_details st @ [failedDetail t None] \<rparr>"
  by (simp add: normalizeStep_def)

lemma normalizeStep_dup:
  assumes "parseNumeric t = Some p" and "p_value p \<in> set (ns_seen st)"
  shows "normalizeStep st t = st \<lparr> ns_details := ns_details st @
           [\<lparr> d_original = t, d_normalized = p_normalized p, d_value = Some (p_value p),
              d_success = False, d_reason = Some duplicate \<rparr>] \<rparr>"
  using assms parseNumeric_Some[OF assms(1)] by (simp add: normalizeStep_def)

lemma normalizeStep_new:
  assumes "parseNumeric t = Some p" and "p_value p \<notin> set (ns_seen st)"
  shows "normalizeStep st t =
           \<lparr> ns_amounts = ns_amounts st @ [p_value p],
             ns_details = ns_details st @
               [\<lparr> d_original = t, d_normalized = p_normalized p, d_value = Some (p_value p),
                  d_success = True, d_reason = None \<rparr>],
             ns_seen = ns_seen st @ [p_value p],
             ns_successful = ns_successful st + 1 \<rparr>"
  using assms parseNumeric_Some[OF assms(1)] by (simp add: normalizeStep_def)

lemma failedDetail_fields:
  "d_success (failedDetail t p) = False" "d_value (failedDetail t p) = None"
  "d_original (failedDetail t p) = t"
  "d_reason (failedDetail t None) = Some invalid_format"
  by (simp_all add: failedDetail_def)

lemma detailOK_snoc: "i < length ts \<Longrightarrow> detailOK (ts @ [t]) i d = detailOK ts i d"
  by (auto simp: detailOK_def nth_append split: option.split)

lemma seen_values_nth:
  "(v \<in> {p_value p | u p. u \<in> set ts \<and> parseNumeric u = Some p})
     = (\<exists>j<length ts. \<exists>q. parseNumeric (ts ! j) = Some q \<and> p_value q = v)"
  by (auto simp: in_set_conv_nth)

lemma norm_fold:
  fixes ts :: "jsstring list"
  defines "st \<equiv> foldl normalizeStep
                   \<lparr> ns_amounts = [], ns_details = [], ns_seen = [], ns_successful = 0 \<rparr> ts"
  shows "ns_seen st = ns_amounts st
       \<and> set (ns_amounts st) = {p_value p | u p. u \<in> set ts \<and> parseNumeric u = Some p}
       \<and> distinct (ns_amounts st)
       \<and> length (ns_details st) = length ts
       \<and> ns_amounts st = map (\<lambda>d. the (d_value d)) (filter d_success (ns_details st))
       \<and> (\<forall>i<length ts. detailOK ts i (ns_details st ! i))"
  unfolding st_def
proof (induction ts rule: rev_induct)
  case Nil
  then show ?case by simp
next
  case (snoc t ts)
  define st where "st = foldl normalizeStep
                   \<lparr> ns_amounts = [], ns_details = [], ns_seen = [], ns_successful = 0 \<rparr> ts"
  note IH = snoc[folded st_def]
  have seen: "ns_seen st = ns_amounts st"
    using IH by (elim conjE)
  have vals: "set (ns_amounts st) = {p_value p | u p. u \<in> set ts \<and> parseNumeric u = Some p}"
    using IH by (elim conjE)
  have dist: "distinct (ns_amounts st)"
    using IH by (elim conjE)
  have len: "length (ns_details st) = length ts"
    using IH by (elim conjE)
  have amts: "ns_amounts st = map (\<lambda>d. the (d_value d)) (filter d_success (ns_details st))"
    using IH by (elim conjE)
  have ok: "\<forall>i<length ts. detailOK ts i (ns_details st ! i)"
    using IH by (elim conjE)
  have step: "foldl normalizeStep
                   \<lparr> ns_amounts = [], ns_details = [], ns_seen = [], ns_successful = 0 \<rparr> (ts @ [t])
              = normalizeStep st t"
    by (simp add: st_def)
  have old: "detailOK (ts @ [t]) i ((ns_details st @ [d]) ! i)" if "i < length ts" for i d
    using that ok len by (simp add: detailOK_snoc nth_append)
  have allI': "\<forall>i<length (ts @ [t]). detailOK (ts @ [t]) i ((ns_details st @ [d]) ! i)"
    if "detailOK (ts @ [t]) (length ts) d" for d
  proof (intro allI impI)
    fix i assume "i < length (ts @ [t])"
    then consider "i < length ts" | "i = length ts" by force
    then show "detailOK (ts @ [t]) i ((ns_details st @ [d]) ! i)"
    proof cases
      case 1 then show ?thesis by (rule old)
    next
      case 2 with that len show ?thesis by (simp add: nth_append)
    qed
  qed
  show ?case
  proof (cases "parseNumeric t")
    case None
    have d: "detailOK (ts @ [t]) (length ts) (failedDetail t None)"
      using None by (simp add: detailOK_def failedDetail_fields)
    have v: "{p_value p | u p. u \<in> set (ts @ [t]) \<and> parseNumeric u = Some p}
             = {p_value p | u p. u \<in> set ts \<and> parseNumeric u = Some p}"
      using None by auto
    show ?thesis
      unfolding step normalizeStep_None[OF None] v
      using seen vals dist len amts allI'[OF d] by (simp add: failedDetail_fields)
  next
    case (Some p)
    have v: "{p_value p | u p. u \<in> set (ts @ [t]) \<and> parseNumeric u = Some p}
             = insert (p_value p) {p_value p | u p. u \<in> set ts \<and> parseNumeric u = Some p}"
      using Some by auto
    have first: "(\<forall>j<length ts. \<forall>q. parseNumeric ((ts @ [t]) ! j) = Some q \<longrightarrow> p_value q \<noteq> p_value p)
                 = (p_value p \<notin> set (ns_amounts st))"
      unfolding vals seen_values_nth by (auto simp: nth_append)
    show ?thesis
    proof (cases "p_value p \<in> set (ns_seen st)")
      case True
      let ?d = "\<lparr> d_original = t, d_normalized = p_normalized p, d_value = Some (p_value p),
              d_success = False, d_reason = Some duplicate \<rparr>"
      have d: "detailOK (ts @ [t]) (length ts) ?d"
        using Some True seen first by (simp add: detailOK_def)
      have v': "insert (p_value p) (set (ns_amounts st)) = set (ns_amounts st)"
        using True seen by auto
      show ?thesis
        unfolding step normalizeStep_dup[OF Some True] v
        using seen vals dist len amts allI'[OF d] v' by simp
    next
      case False
      let ?d = "\<lparr> d_original = t, d_normalized = p_normalized p, d_value = Some (p_value p),
                  d_success = True, d_reason = None \<rparr>"
      have d: "detailOK (ts @ [t]) (length ts) ?d"
        using Some False seen first by (simp add: detailOK_def)
      show ?thesis
        unfolding step normalizeStep_new[OF Some False] v
        using seen vals dist len amts allI'[OF d] False by simp
    qed
  qed
qed



lemma normalizeTokens_fields:
  "ts \<noteq> [] \<Longrightarrow>
   normalized_amounts (normalizeTokens cfg ts) =
     ns_amounts (foldl normalizeStep \<lparr> ns_amounts = [], ns_details = [], ns_seen = [], ns_successful = 0 \<rparr> ts)
   \<and> details (normalizeTokens cfg ts) =
     ns_details (foldl normalizeStep \<lparr> ns_amounts = [], ns_details = [], ns_seen = [], ns_successful = 0 \<rparr> ts)"
  by (simp add: normalizeTokens_def Let_def)

lemma normalize_example:
  "normalized_amounts (normalizeTokens cfg [js ''l200'', js ''1200'']) = [Fin 1200]"
  "map d_success (details (normalizeTokens cfg [js ''l200'', js ''1200''])) = [True, False]"
  by (simp_all add: normalizeTokens_fields normalizeStep_def parse_eval)

text \<open>
  Claim C2.  \<open>normalizeTokens\<close> records one detail per token, in order.  A token that
  parses is recorded with its value; it is a success exactly when no earlier token parses
  to the same value, and otherwise a failure with reason \<^verbatim>\<open>duplicate\<close>.  The list of
  amounts is the list of the successful values in token order, it has no repetition and
  holds every parsed value; \<^verbatim>\<open>normalize(["l200","1200"])\<close> gives \<^verbatim>\<open>[1200]\<close> with one
  successful detail.
\<close>

theorem normalizeTokens_keeps_first_seen:
  "length (details (normalizeTokens cfg ts)) = length ts
   \<and> (\<forall>i<length ts.
        case parseNumeric (ts ! i) of
          None \<Rightarrow> \<not> d_success (details (normalizeTokens cfg ts) ! i)
                  \<and> d_value (details (normalizeTokens cfg ts) ! i) = None
        | Some p \<Rightarrow>
            d_original (details (normalizeTokens cfg ts) ! i) = ts ! i
            \<and> d_value (details (normalizeTokens cfg ts) ! i) = Some (p_value p)
            \<and> (d_success (details (normalizeTokens cfg ts) ! i) \<longleftrightarrow>
                 (\<forall>j<i. \<forall>q. parseNumeric (ts ! j) = Some q \<longrightarrow> p_value q \<noteq> p_value p))
            \<and> d_reason (details (normalizeTokens cfg ts) ! i) =
                 (if d_success (details (normalizeTokens cfg ts) ! i) then None else Some duplicate))
   \<and> normalized_amounts (normalizeTokens cfg ts) =
        map (\<lambda>d. the (d_value d)) (filter d_success (details (normalizeTokens cfg ts)))
   \<and> distinct (normalized_amounts (normalizeTokens cfg ts))
   \<and> set (normalized_amounts (normalizeTokens cfg ts)) =
        {p_value p | u p. u \<in> set ts \<and> parseNumeric u = Some p}
   \<and> normalized_amounts (normalizeTokens cfg [js ''l200'', js ''1200'']) = [Fin 1200]
   \<and> map d_success (details (normalizeTokens cfg [js ''l200'', js ''1200''])) = [True, False]"
proof -
  let ?r = "normalizeTokens cfg ts"
  have main: "length (details ?r) = length ts
   \<and> (\<forall>i<length ts. detailOK ts i (details ?r ! i))
   \<and> normalized_amounts ?r = map (\<lambda>d. the (d_value d)) (filter d_success (details ?r))
   \<and> distinct (normalized_amounts ?r)
   \<and> set (normalized_amounts ?r) = {p_value p | u p. u \<in> set ts \<and> parseNumeric u = Some p}"
  proof (cases "ts = []")
    case True
    then show ?thesis by (simp add: normalizeTokens_def)
  next
    case False
    note f = normalizeTokens_fields[OF False, of cfg]
    from f have na: "normalized_amounts (normalizeTokens cfg ts) =
       ns_amounts (foldl normalizeStep \<lparr> ns_amounts = [], ns_details = [], ns_seen = [], ns_successful = 0 \<rparr> ts)"
      by (elim conjE)
    from f have de: "details (normalizeTokens cfg ts) =
       ns_details (foldl normalizeStep \<lparr> ns_amounts = [], ns_details = [], ns_seen = [], ns_successful = 0 \<rparr> ts)"
      by (elim conjE)
    show ?thesis
      unfolding na de using norm_fold[of ts] by blast
  qed
  show ?thesis
    using main normalize_example[of cfg] unfolding detailOK_def by blast
qed

theorem normalizeTokens_keeps_first_seen_witness:
  "(1::nat) < length [js ''l200'', js ''1200'']
   \<and> parseNumeric ([js ''l200'', js ''1200''] ! 0) = Some \<lparr> p_type = js ''number'', p_value = Fin 1200,
        p_original = js ''l200'', p_normalized = js ''1200'' \<rparr>
   \<and> parseNumeric ([js ''l200'', js ''1200''] ! 1) = Some \<lparr> p_type = js ''number'', p_value = Fin 1200,
        p_original = js ''1200'', p_normalized = js ''1200'' \<rparr>
   \<and> d_success (details (normalizeTokens defaultConfig [js ''l200'', js ''1200'']) ! 1) = False
   \<and> d_reason (details (normalizeTokens defaultConfig [js ''l200'', js ''1200'']) ! 1) = Some duplicate
   \<and> d_value (details (normalizeTokens defaultConfig [js ''l200'', js ''1200'']) ! 1) = Some (Fin 1200)"
proof -
  let ?ts = "[js ''l200'', js ''1200'']"
  let ?d = "details (normalizeTokens defaultConfig ?ts) ! 1"
  from normalizeTokens_keeps_first_seen[of defaultConfig ?ts]
  have "\<forall>i<length ?ts.
        case parseNumeric (?ts ! i) of
          None \<Rightarrow> \<not> d_success (details (normalizeTokens defaultConfig ?ts) ! i)
                  \<and> d_value (details (normalizeTokens defaultConfig ?ts) ! i) = None
        | Some p \<Rightarrow>
            d_original (details (normalizeTokens defaultConfig ?ts) ! i) = ?ts ! i
            \<and> d_value (details (normalizeTokens defaultConfig ?ts) ! i) = Some (p_value p)
            \<and> (d_success (details (normalizeTokens defaultConfig ?ts) ! i) \<longleftrightarrow>
                 (\<forall>j<i. \<forall>q. parseNumeric (?ts ! j) = Some q \<longrightarrow> p_value q \<noteq> p_value p))
            \<and> d_reason (details (normalizeTokens defaultConfig ?ts) ! i) =
                 (if d_success (details (normalizeTokens defaultConfig ?ts) ! i) then None else Some duplicate)"
    by (elim conjE)
  then have "case parseNumeric (?ts ! 1) of
          None \<Rightarrow> \<not> d_success ?d \<and> d_value ?d = None
        | Some p \<Rightarrow>
            d_original ?d = ?ts ! 1
            \<and> d_value ?d = Some (p_value p)
            \<and> (d_success ?d \<longleftrightarrow>
                 (\<forall>j<1. \<forall>q. parseNumeric (?ts ! j) = Some q \<longrightarrow> p_value q \<noteq> p_value p))
            \<and> d_reason ?d = (if d_success ?d then None else Some duplicate)"
    by (elim allE[where x = 1]) simp
  then show ?thesis
    by (simp add: parse_eval)
qed

lemma step_reason:
  "\<forall>d\<in>set (ns_details st). d_reason d \<noteq> Some percentage \<Longrightarrow>
   \<forall>d\<in>set (ns_details (normalizeStep st t)). d_reason d \<noteq> Some percentage"
proof (cases "parseNumeric t")
  case None
  assume "\<forall>d\<in>set (ns_details st). d_reason d \<noteq> Some percentage"
  then show ?thesis
    unfolding normalizeStep_None[OF None] by (simp add: failedDetail_fields)
next
  case (Some p)
  assume a: "\<forall>d\<in>set (ns_details st). d_reason d \<noteq> Some percentage"
  show ?thesis
  proof (cases "p_value p \<in> set (ns_seen st)")
    case True
    show ?thesis unfolding normalizeStep_dup[OF Some True] using a by simp
  next
    case False
    show ?thesis unfolding normalizeStep_new[OF Some False] using a by simp
  qed
qed

lemma fold_reason:
  "\<forall>d\<in>set (ns_details st). d_reason d \<noteq> Some percentage \<Longrightarrow>
   \<forall>d\<in>set (ns_details (foldl normalizeStep st ts)). d_reason d \<noteq> Some percentage"
proof (induction ts arbitrary: st)
  case Nil
  then show ?case by simp
next
  case (Cons a ts)
  from Cons.IH[OF step_reason[OF Cons.prems, of a]] show ?case by simp
qed

lemma floor_half: "\<lfloor>(1 / 2 :: rat)\<rfloor> = 0"
  by (rule floor_unique) simp_all

lemma roundFixed2_zero: "roundFixed2 (Fin 0) = Fin 0"
  by (simp add: roundFixed2_def floor_half fl_0)

text \<open>
  Claim C8 (the code departs from it).  A token with a percent sign makes \<open>parseNumeric\<close>
  return nothing, and the failure branch of \<open>normalizeTokens\<close> chooses the reason
  \<^verbatim>\<open>percentage\<close> only when \<open>parseNumeric\<close> returned something: \<^verbatim>\<open>normalize(["10%"])\<close>
  has no amount and confidence 0, but its detail carries the reason \<^verbatim>\<open>invalid_format\<close>,
  and no detail of any run carries the reason \<^verbatim>\<open>percentage\<close>.
\<close>

theorem normalizeTokens_percentage_reason:
  "normalizeTokens cfg [js ''10%''] =
     \<lparr> normalized_amounts = [], normalization_confidence = Fin 0,
       details = [\<lparr> d_original = js ''10%'', d_normalized = js ''10'', d_value = None,
                    d_success = False, d_reason = Some invalid_format \<rparr>] \<rparr>
   \<and> list_all (\<lambda>d. d_reason d \<noteq> Some percentage) (details (normalizeTokens cfg ts))"
proof -
  have a: "normalizeTokens cfg [js ''10%''] =
     \<lparr> normalized_amounts = [], normalization_confidence = Fin 0,
       details = [\<lparr> d_original = js ''10%'', d_normalized = js ''10'', d_value = None,
                    d_success = False, d_reason = Some invalid_format \<rparr>] \<rparr>"
    by (simp add: normalizeTokens_def Let_def normalizeStep_def parse_eval failedDetail_def fix_eval
          calculateNormalizationConfidence_def roundFixed2_zero)
  have b: "list_all (\<lambda>d. d_reason d \<noteq> Some percentage) (details (normalizeTokens cfg ts))"
  proof (cases "ts = []")
    case True
    then show ?thesis by (simp add: normalizeTokens_def)
  next
    case False
    have "\<forall>d\<in>set (ns_details (foldl normalizeStep
             \<lparr> ns_amounts = [], ns_details = [], ns_seen = [], ns_successful = 0 \<rparr> ts)).
            d_reason d \<noteq> Some percentage"
      by (rule fold_reason) simp
    then show ?thesis
      using normalizeTokens_fields[OF False, of cfg] by (simp add: list_all_iff)
  qed
  from a b show ?thesis by (rule conjI)
qed

theorem normalizeTokens_percentage_reason_witness:
  "d_reason (hd (details (normalizeTokens defaultConfig [js ''10%'']))) = Some invalid_format
   \<and> normalized_amounts (normalizeTokens defaultConfig [js ''10%'']) = []
   \<and> normalization_confidence (normalizeTokens defaultConfig [js ''10%'']) = Fin 0"
  using normalizeTokens_percentage_reason[of defaultConfig "[]"] by simp

section \<open>Validation and the guard of the classifier\<close>


lemma singleton_issues_iff:
  "MultipleAmounts t vs \<in> set (issues (validateClassification as))
     \<longleftrightarrow> t \<in> {total_bill, subtotal, paid} \<and> vs = typeMap as t \<and> 1 < length (typeMap as t)"
  by (auto simp: validateClassification_def Let_def)

lemma typeMap_distinct:
  "distinct (map (\<lambda>a. (a_type a, a_value a)) as) \<Longrightarrow> distinct (typeMap as t)"
proof (induction as)
  case Nil
  then show ?case by (simp add: typeMap_def)
next
  case (Cons a as)
  then have d: "distinct (typeMap as t)" and n: "(a_type a, a_value a) \<notin> set (map (\<lambda>a. (a_type a, a_value a)) as)"
    by simp_all
  show ?case
  proof (cases "a_type a = t")
    case True
    have "a_value a \<notin> set (typeMap as t)"
    proof
      assume "a_value a \<in> set (typeMap as t)"
      then obtain b where "b \<in> set as" "a_type b = t" "a_value b = a_value a"
        by (auto simp: typeMap_def)
      from \<open>b \<in> set as\<close> have "(\<lambda>a. (a_type a, a_value a)) b \<in> (\<lambda>a. (a_type a, a_value a)) ` set as"
        by (rule imageI)
      with True \<open>a_type b = t\<close> \<open>a_value b = a_value a\<close>
      have "(a_type a, a_value a) \<in> set (map (\<lambda>a. (a_type a, a_value a)) as)"
        by simp
      with n show False by contradiction
    qed
    with d True show ?thesis by (simp add: typeMap_def)
  next
    case False
    with d show ?thesis by (simp add: typeMap_def)
  qed
qed

text \<open>
  Claim C9, as amended.  \<open>validateClassification\<close> flags a soft-singleton type
  (\<^verbatim>\<open>total_bill\<close>, \<^verbatim>\<open>subtotal\<close>, \<^verbatim>\<open>paid\<close>) exactly when more than one of the amounts has
  that type, whether or not their values differ, and any such issue makes the result
  invalid.  On a list without a repeated (type, value) pair, as \<open>classifyAmounts\<close>
  returns, this is the same as more than one distinct value; two \<^verbatim>\<open>total_bill\<close> entries
  with different values make the result invalid.
\<close>

theorem validateClassification_flags_repeated_types:
  "(MultipleAmounts t vs \<in> set (issues (validateClassification as))
      \<longleftrightarrow> t \<in> {total_bill, subtotal, paid} \<and> vs = map a_value (filter (\<lambda>a. a_type a = t) as)
          \<and> 1 < length (filter (\<lambda>a. a_type a = t) as))
   \<and> (valid (validateClassification as) \<longleftrightarrow> issues (validateClassification as) = [])
   \<and> (t \<in> {total_bill, subtotal, paid} \<and> 1 < length (filter (\<lambda>a. a_type a = t) as)
         \<longrightarrow> \<not> valid (validateClassification as))
   \<and> (distinct (map (\<lambda>a. (a_type a, a_value a)) as)
         \<longrightarrow> (1 < length (filter (\<lambda>a. a_type a = t) as)
                \<longleftrightarrow> 1 < card (set (map a_value (filter (\<lambda>a. a_type a = t) as)))))
   \<and> (a \<in> set as \<and> b \<in> set as \<and> a_type a = total_bill \<and> a_type b = total_bill
         \<and> a_value a \<noteq> a_value b \<longrightarrow> \<not> valid (validateClassification as))"
proof -
  have len: "length (typeMap as t) = length (filter (\<lambda>a. a_type a = t) as)" for t
    by (simp add: typeMap_def)
  have A: "MultipleAmounts t vs \<in> set (issues (validateClassification as))
      \<longleftrightarrow> t \<in> {total_bill, subtotal, paid} \<and> vs = map a_value (filter (\<lambda>a. a_type a = t) as)
          \<and> 1 < length (filter (\<lambda>a. a_type a = t) as)"
    unfolding singleton_issues_iff len by (simp add: typeMap_def)
  have B: "valid (validateClassification as) \<longleftrightarrow> issues (validateClassification as) = []"
    by (simp add: validateClassification_def Let_def)
  have C: "\<not> valid (validateClassification as)"
    if "t \<in> {total_bill, subtotal, paid}" "1 < length (filter (\<lambda>a. a_type a = t) as)" for t
  proof -
    from that have "MultipleAmounts t (typeMap as t) \<in> set (issues (validateClassification as))"
      unfolding singleton_issues_iff len by simp
    then have "issues (validateClassification as) \<noteq> []" by auto
    with B show ?thesis by simp
  qed
  have D: "1 < length (filter (\<lambda>a. a_type a = t) as) \<longleftrightarrow> 1 < card (set (map a_value (filter (\<lambda>a. a_type a = t) as)))"
    if "distinct (map (\<lambda>a. (a_type a, a_value a)) as)"
  proof -
    have "card (set (typeMap as t)) = length (typeMap as t)"
      using typeMap_distinct[OF that] by (rule distinct_card)
    then show ?thesis by (simp add: typeMap_def)
  qed
  have E: "\<not> valid (validateClassification as)"
    if "a \<in> set as" "b \<in> set as" "a_type a = total_bill" "a_type b = total_bill" "a_value a \<noteq> a_value b"
  proof -
    from that have "a \<in> set (filter (\<lambda>a. a_type a = total_bill) as)" "b \<in> set (filter (\<lambda>a. a_type a = total_bill) as)" "a \<noteq> b"
      by auto
    then have "1 < length (filter (\<lambda>a. a_type a = total_bill) as)"
      by (cases "filter (\<lambda>a. a_type a = total_bill) as" rule: list.exhaust[case_names Nil Cons];
          cases "tl (filter (\<lambda>a. a_type a = total_bill) as)") auto
    then show ?thesis using C[of total_bill] by simp
  qed
  from A B C D E show ?thesis by blast
qed

theorem validateClassification_flags_repeated_types_witness:
  "\<lparr> a_type = total_bill, a_value = Fin 2000, a_source = [] \<rparr>
      \<in> set [\<lparr> a_type = total_bill, a_value = Fin 2000, a_source = [] \<rparr>,
              \<lparr> a_type = total_bill, a_value = Fin 2500, a_source = [] \<rparr>]
   \<and> Fin 2000 \<noteq> Fin 2500
   \<and> valid (validateClassification
        [\<lparr> a_type = total_bill, a_value = Fin 2000, a_source = [] \<rparr>,
         \<lparr> a_type = total_bill, a_value = Fin 2500, a_source = [] \<rparr>]) = False"
proof -
  let ?a = "\<lparr> a_type = total_bill, a_value = Fin 2000, a_source = [] \<rparr>"
  let ?b = "\<lparr> a_type = total_bill, a_value = Fin 2500, a_source = [] \<rparr>"
  from validateClassification_flags_repeated_types[of total_bill "[]" "[?a, ?b]" ?a ?b]
  have "?a \<in> set [?a, ?b] \<and> ?b \<in> set [?a, ?b] \<and> a_type ?a = total_bill \<and> a_type ?b = total_bill
         \<and> a_value ?a \<noteq> a_value ?b \<longrightarrow> \<not> valid (validateClassification [?a, ?b])"
    by (elim conjE)
  then show ?thesis by simp
qed

text \<open>
  Claim C9 as stated fails: two \<^verbatim>\<open>total_bill\<close> entries that share the value 2000 carry
  one distinct value, and they are flagged all the same.
\<close>

theorem validateClassification_same_value_counterexample:
  "valid (validateClassification
        [\<lparr> a_type = total_bill, a_value = Fin 2000, a_source = [] \<rparr>,
         \<lparr> a_type = total_bill, a_value = Fin 2000, a_source = [] \<rparr>]) = False
   \<and> issues (validateClassification
        [\<lparr> a_type = total_bill, a_value = Fin 2000, a_source = [] \<rparr>,
         \<lparr> a_type = total_bill, a_value = Fin 2000, a_source = [] \<rparr>])
       = [MultipleAmounts total_bill [Fin 2000, Fin 2000]]
   \<and> card (set (map a_value (filter (\<lambda>a. a_type a = total_bill)
               [\<lparr> a_type = total_bill, a_value = Fin 2000, a_source = [] \<rparr>,
                \<lparr> a_type = total_bill, a_value = Fin 2000, a_source = [] \<rparr>]))) = 1"
  by (simp add: validateClassification_def typeMap_def Let_def)

text \<open>
  Claim C10.  When the text is absent or empty, or the list of normalized amounts is
  absent or empty, \<open>classifyAmounts\<close> returns no amounts, confidence 0 and no details.
\<close>

theorem classifyAmounts_without_input:
  "text = None \<or> text = Some [] \<or> normalizedAmounts = None \<or> normalizedAmounts = Some []
   \<Longrightarrow> classifyAmounts cfg text normalizedAmounts
         = \<lparr> amounts = [], confidence = Fin 0, classification_details = [] \<rparr>"
  by (auto simp: classifyAmounts_def)

theorem classifyAmounts_without_input_witness:
  "classifyAmounts defaultConfig (Some []) (Some [Fin 5000])
         = \<lparr> amounts = [], confidence = Fin 0, classification_details = [] \<rparr>
   \<and> classifyAmounts defaultConfig (Some (js ''Total: 5000'')) (Some [])
         = \<lparr> amounts = [], confidence = Fin 0, classification_details = [] \<rparr>
   \<and> classifyAmounts defaultConfig None None
         = \<lparr> amounts = [], confidence = Fin 0, classification_details = [] \<rparr>"
  using classifyAmounts_without_input[of "Some []" "Some [Fin 5000]" defaultConfig]
        classifyAmounts_without_input[of "Some (js ''Total: 5000'')" "Some []" defaultConfig]
        classifyAmounts_without_input[of None None defaultConfig]
  by simp

section \<open>Evaluating patterns\<close>


lemma map_weak_cong: "xs = ys \<Longrightarrow> map f xs = map f ys" by simp
lemma bex_weak_cong: "A = B \<Longrightarrow> Bex A P = Bex B P" by simp
lemma filter_weak_cong: "xs = ys \<Longrightarrow> filter P xs = filter P ys" by simp

lemmas rx_eval = rxm.simps rxseq_def str_def strI_def anyOf_def anyOfI_def rxopt_def rxstar_def
  rxplus_def rxspace_def rxdigit_def upperAscii_def laterCapture_def atWordBoundary_def
  isWordChar_def isLetter_def isDigit_def isSpace_def js_def test_def matchAll_def euro_def
  pound_def rupee_def

lemma scores_due_paid:
  "map (\<lambda>r. ruleScore r (js ''due paid'')) classificationRules = [0, 27, 27, 0, 0, 0, 0]"
  by (simp add: classificationRules_def ruleScore_def toLowerCase_def lowerUnit_def rx_eval
        cong: map_weak_cong bex_weak_cong filter_weak_cong)


section \<open>Matching a snippet to a type\<close>


lemma patternMatched_iff: "patternMatched ps snippet \<longleftrightarrow> (\<exists>p\<in>set ps. test p snippet)"
  by (induction ps) auto

lemma foldl_score:
  "foldl (\<lambda>score keyword. if P keyword then score + (n::nat) else score) s ks
     = s + n * length (filter P ks)"
  by (induction ks arbitrary: s) (simp_all add: algebra_simps)

lemma ruleScore_eq:
  "ruleScore r snippet =
     (if \<exists>p\<in>set (r_patterns r). test p snippet then r_priority r * 2 else 0)
     + r_priority r * length (filter (\<lambda>k. jsIncludes (toLowerCase snippet) (toLowerCase k)) (r_keywords r))"
  unfolding ruleScore_def foldl_score patternMatched_iff by simp

lemma matchStep_eq:
  "matchStep snippet best r =
     (if snd best < ruleScore r snippet then (Some (bestOf snippet r), ruleScore r snippet) else best)"
  by (simp add: matchStep_def bestOf_def Let_def)

lemma match_fold:
  fixes rs :: "class_rule list" and snippet :: jsstring
  defines "res \<equiv> foldl (matchStep snippet) (None, 0) rs"
  shows "(\<forall>r\<in>set rs. ruleScore r snippet \<le> snd res)
       \<and> (fst res = None \<longleftrightarrow> snd res = 0)
       \<and> (\<forall>m. fst res = Some m \<longrightarrow>
             (\<exists>i<length rs. m = bestOf snippet (rs ! i) \<and> ruleScore (rs ! i) snippet = snd res
                  \<and> (\<forall>j<i. ruleScore (rs ! j) snippet < snd res)))"
  unfolding res_def
proof (induction rs rule: rev_induct)
  case Nil
  then show ?case by simp
next
  case (snoc r rs)
  define res where "res = foldl (matchStep snippet) (None, 0) rs"
  note IH = snoc[folded res_def]
  have le: "\<forall>r\<in>set rs. ruleScore r snippet \<le> snd res" using IH by (elim conjE)
  have none: "fst res = None \<longleftrightarrow> snd res = 0" using IH by (elim conjE)
  have some: "\<forall>m. fst res = Some m \<longrightarrow>
             (\<exists>i<length rs. m = bestOf snippet (rs ! i) \<and> ruleScore (rs ! i) snippet = snd res
                  \<and> (\<forall>j<i. ruleScore (rs ! j) snippet < snd res))" using IH by (elim conjE)
  have step: "foldl (matchStep snippet) (None, 0) (rs @ [r]) = matchStep snippet res r"
    by (simp add: res_def)
  show ?case
  proof (cases "snd res < ruleScore r snippet")
    case True
    have new: "matchStep snippet res r = (Some (bestOf snippet r), ruleScore r snippet)"
      using True by (simp add: matchStep_eq)
    have a: "\<forall>x\<in>set (rs @ [r]). ruleScore x snippet \<le> ruleScore r snippet"
      using le True by auto
    have b: "\<forall>j<length rs. ruleScore ((rs @ [r]) ! j) snippet < ruleScore r snippet"
      using le True by (auto simp: nth_append intro: le_less_trans)
    have c: "\<exists>i<length (rs @ [r]). bestOf snippet r = bestOf snippet ((rs @ [r]) ! i)
                \<and> ruleScore ((rs @ [r]) ! i) snippet = ruleScore r snippet
                \<and> (\<forall>j<i. ruleScore ((rs @ [r]) ! j) snippet < ruleScore r snippet)"
      using b by (intro exI[of _ "length rs"]) simp
    show ?thesis
      unfolding step new using a c True by auto
  next
    case False
    have old: "matchStep snippet res r = res"
      using False by (simp add: matchStep_eq)
    have a: "\<forall>x\<in>set (rs @ [r]). ruleScore x snippet \<le> snd res"
      using le False by auto
    have c: "\<exists>i<length (rs @ [r]). m = bestOf snippet ((rs @ [r]) ! i)
                \<and> ruleScore ((rs @ [r]) ! i) snippet = snd res
                \<and> (\<forall>j<i. ruleScore ((rs @ [r]) ! j) snippet < snd res)"
      if "fst res = Some m" for m
    proof -
      from some that obtain i where i: "i < length rs" "m = bestOf snippet (rs ! i)"
          "ruleScore (rs ! i) snippet = snd res" "\<forall>j<i. ruleScore (rs ! j) snippet < snd res"
        by blast
      then show ?thesis
        by (intro exI[of _ i]) (auto simp: nth_append)
    qed
    show ?thesis
      unfolding step old using a none c by blast
  qed
qed



lemma rules_shape:
  "map r_type classificationRules = [total_bill, paid, due, subtotal, tax, discount, service_charge]"
  "map r_priority classificationRules = [10, 9, 9, 8, 7, 6, 5]"
  by (simp_all add: classificationRules_def)

text \<open>
  Claim C5.  The score of a rule is twice its priority if one of its patterns matches
  the snippet (once, however many match) plus its priority for every keyword whose lower
  case occurs in the lower-cased snippet.  \<open>matchSnippetToType\<close> returns no match exactly
  when every rule scores zero; otherwise it returns the type of a rule whose score is the
  highest, every rule declared before it scoring strictly less, with that score and the
  confidence \<^verbatim>\<open>min(0.95, 0.5 + score/30)\<close>.  The rules are declared in the order
  \<^verbatim>\<open>total_bill, paid, due, subtotal, tax, discount, service_charge\<close>.
\<close>

theorem matchSnippetToType_selects_highest_score:
  "(matchSnippetToType snippet = None \<longleftrightarrow> (\<forall>r\<in>set classificationRules. ruleScore r snippet = 0))
   \<and> (\<forall>m. matchSnippetToType snippet = Some m \<longrightarrow>
         (\<exists>i<length classificationRules.
              tm_type m = r_type (classificationRules ! i)
            \<and> tm_score m = ruleScore (classificationRules ! i) snippet
            \<and> 0 < tm_score m
            \<and> (\<forall>r\<in>set classificationRules. ruleScore r snippet \<le> tm_score m)
            \<and> (\<forall>j<i. ruleScore (classificationRules ! j) snippet < tm_score m))
         \<and> tm_confidence m =
             mathMin (lit (95 / 100)) (jadd (lit (5 / 10)) (jdiv (Fin (of_nat (tm_score m))) (Fin 30))))
   \<and> ruleScore r snippet =
        (if \<exists>p\<in>set (r_patterns r). test p snippet then r_priority r * 2 else 0)
        + r_priority r * length (filter (\<lambda>k. jsIncludes (toLowerCase snippet) (toLowerCase k))
                                        (r_keywords r))
   \<and> map r_type classificationRules = [total_bill, paid, due, subtotal, tax, discount, service_charge]
   \<and> map r_priority classificationRules = [10, 9, 9, 8, 7, 6, 5]"
proof -
  define res where "res = foldl (matchStep snippet) (None, 0) classificationRules"
  have m: "matchSnippetToType snippet = fst res"
    by (simp add: matchSnippetToType_def res_def)
  note F = match_fold[where snippet = snippet and rs = classificationRules, folded res_def]
  have le: "\<forall>r\<in>set classificationRules. ruleScore r snippet \<le> snd res" using F by (elim conjE)
  have none: "fst res = None \<longleftrightarrow> snd res = 0" using F by (elim conjE)
  have some: "\<forall>m. fst res = Some m \<longrightarrow>
             (\<exists>i<length classificationRules. m = bestOf snippet (classificationRules ! i)
                  \<and> ruleScore (classificationRules ! i) snippet = snd res
                  \<and> (\<forall>j<i. ruleScore (classificationRules ! j) snippet < snd res))"
    using F by (elim conjE)
  have A: "matchSnippetToType snippet = None \<longleftrightarrow> (\<forall>r\<in>set classificationRules. ruleScore r snippet = 0)"
  proof
    assume "matchSnippetToType snippet = None"
    with m none have "snd res = 0" by simp
    with le show "\<forall>r\<in>set classificationRules. ruleScore r snippet = 0" by auto
  next
    assume z: "\<forall>r\<in>set classificationRules. ruleScore r snippet = 0"
    show "matchSnippetToType snippet = None"
    proof (rule ccontr)
      assume "matchSnippetToType snippet \<noteq> None"
      then obtain mm where mm: "fst res = Some mm" using m by auto
      with some obtain i where i: "i < length classificationRules"
          "ruleScore (classificationRules ! i) snippet = snd res" by blast
      from mm none have "snd res \<noteq> 0" by auto
      moreover from i z have "snd res = 0" by (metis nth_mem)
      ultimately show False by contradiction
    qed
  qed
  have B: "(\<exists>i<length classificationRules.
              tm_type mm = r_type (classificationRules ! i)
            \<and> tm_score mm = ruleScore (classificationRules ! i) snippet
            \<and> 0 < tm_score mm
            \<and> (\<forall>r\<in>set classificationRules. ruleScore r snippet \<le> tm_score mm)
            \<and> (\<forall>j<i. ruleScore (classificationRules ! j) snippet < tm_score mm))
         \<and> tm_confidence mm =
             mathMin (lit (95 / 100)) (jadd (lit (5 / 10)) (jdiv (Fin (of_nat (tm_score mm))) (Fin 30)))"
    if "matchSnippetToType snippet = Some mm" for mm
  proof -
    from that m have mm: "fst res = Some mm" by simp
    with some obtain i where i: "i < length classificationRules"
        "mm = bestOf snippet (classificationRules ! i)"
        "ruleScore (classificationRules ! i) snippet = snd res"
        "\<forall>j<i. ruleScore (classificationRules ! j) snippet < snd res" by blast
    from mm none have pos: "0 < snd res" by auto
    have sc: "tm_score mm = snd res" using i by (simp add: bestOf_def)
    have ty: "tm_type mm = r_type (classificationRules ! i)" using i by (simp add: bestOf_def)
    have cf: "tm_confidence mm =
             mathMin (lit (95 / 100)) (jadd (lit (5 / 10)) (jdiv (Fin (of_nat (tm_score mm))) (Fin 30)))"
      using i by (simp add: bestOf_def)
    from i(1) ty sc i(3) pos le i(4) have
      "\<exists>i<length classificationRules.
              tm_type mm = r_type (classificationRules ! i)
            \<and> tm_score mm = ruleScore (classificationRules ! i) snippet
            \<and> 0 < tm_score mm
            \<and> (\<forall>r\<in>set classificationRules. ruleScore r snippet \<le> tm_score mm)
            \<and> (\<forall>j<i. ruleScore (classificationRules ! j) snippet < tm_score mm)"
      by (intro exI[of _ i]) simp
    with cf show ?thesis by (rule conjI[rotated])
  qed
  from B have B': "\<forall>m. matchSnippetToType snippet = Some m \<longrightarrow>
         (\<exists>i<length classificationRules.
              tm_type m = r_type (classificationRules ! i)
            \<and> tm_score m = ruleScore (classificationRules ! i) snippet
            \<and> 0 < tm_score m
            \<and> (\<forall>r\<in>set classificationRules. ruleScore r snippet \<le> tm_score m)
            \<and> (\<forall>j<i. ruleScore (classificationRules ! j) snippet < tm_score m))
         \<and> tm_confidence m =
             mathMin (lit (95 / 100)) (jadd (lit (5 / 10)) (jdiv (Fin (of_nat (tm_score m))) (Fin 30)))"
    by (intro allI impI)
  show ?thesis
    by (intro conjI, rule A, rule B', rule ruleScore_eq, rule rules_shape(1), rule rules_shape(2))
qed

theorem matchSnippetToType_selects_highest_score_witness:
  "map (\<lambda>r. ruleScore r (js ''due paid'')) classificationRules = [0, 27, 27, 0, 0, 0, 0]
   \<and> map_option tm_type (matchSnippetToType (js ''due paid'')) = Some paid
   \<and> map_option tm_score (matchSnippetToType (js ''due paid'')) = Some 27"
proof -
  let ?s = "js ''due paid''"
  note sc = scores_due_paid
  have len: "length classificationRules = 7" by (simp add: classificationRules_def)
  have nth: "ruleScore (classificationRules ! i) ?s = [0, 27, 27, 0, 0, 0, 0] ! i" if "i < 7" for i
  proof -
    have "map (\<lambda>r. ruleScore r ?s) classificationRules ! i = ruleScore (classificationRules ! i) ?s"
      using that len by (intro nth_map) simp
    with sc show ?thesis by simp
  qed
  have s1: "ruleScore (classificationRules ! 1) ?s = 27" using nth[of 1] by simp
  have notnone: "matchSnippetToType ?s \<noteq> None"
  proof
    assume "matchSnippetToType ?s = None"
    with matchSnippetToType_selects_highest_score[of ?s]
    have "\<forall>r\<in>set classificationRules. ruleScore r ?s = 0" by blast
    moreover have "classificationRules ! 1 \<in> set classificationRules" using len by simp
    ultimately show False using s1 by simp
  qed
  then obtain m where m: "matchSnippetToType ?s = Some m" by auto
  with matchSnippetToType_selects_highest_score[of ?s]
  obtain i where i: "i < length classificationRules" "tm_type m = r_type (classificationRules ! i)"
      "tm_score m = ruleScore (classificationRules ! i) ?s" "0 < tm_score m"
      "\<forall>r\<in>set classificationRules. ruleScore r ?s \<le> tm_score m"
      "\<forall>j<i. ruleScore (classificationRules ! j) ?s < tm_score m"
    by blast
  have "classificationRules ! 1 \<in> set classificationRules" using len by simp
  with i(5) have "ruleScore (classificationRules ! 1) ?s \<le> tm_score m" by (rule bspec)
  with s1 have ge: "27 \<le> tm_score m" by simp
  from i(1) len have i7: "i < 7" by simp
  from i(3) nth[OF i7] have sci: "tm_score m = [0, 27, 27, 0, 0, 0, 0] ! i" by simp
  from i7 consider "i = 0" | "i = 1" | "i = 2" | "i = 3" | "i = 4" | "i = 5" | "i = 6" by linarith
  then have "i = 1"
  proof cases
    case 1 with sci ge show ?thesis by simp
  next
    case 2 then show ?thesis .
  next
    case 3
    with i(6) have "ruleScore (classificationRules ! 1) ?s < tm_score m" by simp
    moreover from 3 sci have "tm_score m = 27" by simp
    ultimately show ?thesis using s1 by simp
  next
    case 4 with sci ge show ?thesis by simp
  next
    case 5 with sci ge show ?thesis by simp
  next
    case 6 with sci ge show ?thesis by simp
  next
    case 7 with sci ge show ?thesis by simp
  qed
  have "map r_type classificationRules ! 1 = r_type (classificationRules ! 1)"
    using len by (intro nth_map) simp
  then have "r_type (classificationRules ! 1) = paid"
    unfolding rules_shape(1) by simp
  with \<open>i = 1\<close> i(2,3) s1 have "tm_type m = paid" "tm_score m = 27"
    by simp_all
  with m sc show ?thesis by simp
qed

section \<open>Classifying amounts\<close>


lemma close_is_finite:
  "jlt (jabs (jsub na v)) (Fin c) \<Longrightarrow> \<exists>x. na = Fin x"
  by (cases na; cases v) (simp_all add: jsub_def)

lemma close_to_itself: "jlt (jabs (jsub (Fin x) (Fin x))) (lit (1 / 100))"
  by (simp add: jsub_def fl_0 fl_cent)

lemma classifyValue_inv:
  assumes "classInv nas st"
  shows "classInv nas (classifyValue nas snippet st v)"
proof (cases "find (\<lambda>na. jlt (jabs (jsub na v)) (lit (1 / 100))) nas")
  case None
  with assms show ?thesis by (simp add: classifyValue_def)
next
  case (Some ma)
  then have mem: "ma \<in> set nas" and close: "jlt (jabs (jsub ma v)) (lit (1 / 100))"
    by (auto simp: find_Some_iff)
  from close have fin: "\<exists>x. ma = Fin x"
    unfolding fl_cent by (rule close_is_finite)
  show ?thesis
  proof (cases "matchSnippetToType snippet")
    case None
    with Some assms show ?thesis by (simp add: classifyValue_def)
  next
    case (Some c)
    show ?thesis
      using assms \<open>find _ nas = Some ma\<close> Some mem fin
      by (auto simp: classifyValue_def classInv_def Let_def)
  qed
qed

lemma classifySnippet_inv:
  "classInv nas st \<Longrightarrow> classInv nas (classifySnippet nas st snippet)"
proof -
  have "classInv nas st \<Longrightarrow> classInv nas (foldl (classifyValue nas snippet) st vs)" for vs
    by (induction vs arbitrary: st) (simp_all add: classifyValue_inv)
  then show "classInv nas st \<Longrightarrow> classInv nas (classifySnippet nas st snippet)"
    by (simp add: classifySnippet_def)
qed

lemma classify_fold_inv:
  "classInv nas st \<Longrightarrow> classInv nas (foldl (classifySnippet nas) st snippets)"
  by (induction snippets arbitrary: st) (simp_all add: classifySnippet_inv)

lemma classInv_init: "classInv nas \<lparr> cs_amounts = [], cs_details = [], cs_pairs = [] \<rparr>"
  by (simp add: classInv_def)

text \<open>
  Claim C6.  Every value among the amounts that \<open>classifyAmounts\<close> returns is an element
  of the list of normalized amounts it was given, hence within 0.01 of one, and no two of
  the returned amounts have the same type and value.
\<close>

theorem classifyAmounts_values_and_pairs:
  "(\<forall>a\<in>set (amounts (classifyAmounts cfg text (Some nas))).
       a_value a \<in> set nas
       \<and> (\<exists>na\<in>set nas. jlt (jabs (jsub (a_value a) na)) (lit (1 / 100))))
   \<and> distinct (map (\<lambda>a. (a_type a, a_value a)) (amounts (classifyAmounts cfg text (Some nas))))
   \<and> amounts (classifyAmounts cfg text None) = []"
proof (cases "text = None \<or> text = Some [] \<or> nas = []")
  case True
  then show ?thesis by (auto simp: classifyAmounts_def)
next
  case False
  define st where "st = foldl (classifySnippet nas)
                      \<lparr> cs_amounts = [], cs_details = [], cs_pairs = [] \<rparr>
                      (findContextSnippets (the text))"
  have inv: "classInv nas st"
    unfolding st_def by (rule classify_fold_inv[OF classInv_init])
  have am: "amounts (classifyAmounts cfg text (Some nas)) =
        map (\<lambda>a. \<lparr> a_type = c_type a, a_value = c_value a, a_source = c_source a \<rparr>) (cs_amounts st)"
    using False by (auto simp: classifyAmounts_def Let_def st_def)
  have A: "a_value a \<in> set nas \<and> (\<exists>na\<in>set nas. jlt (jabs (jsub (a_value a) na)) (lit (1 / 100)))"
    if "a \<in> set (amounts (classifyAmounts cfg text (Some nas)))" for a
  proof -
    from that am obtain c where c: "c \<in> set (cs_amounts st)" "a_value a = c_value c" by auto
    with inv obtain x where x: "c_value c \<in> set nas" "c_value c = Fin x"
      by (auto simp: classInv_def)
    with c have "a_value a \<in> set nas" by simp
    moreover from c x close_to_itself[of x]
    have "jlt (jabs (jsub (a_value a) (a_value a))) (lit (1 / 100))" by simp
    ultimately show ?thesis by blast
  qed
  have "map (\<lambda>a. (a_type a, a_value a)) (amounts (classifyAmounts cfg text (Some nas))) = cs_pairs st"
    using inv by (simp add: am classInv_def comp_def)
  then have B: "distinct (map (\<lambda>a. (a_type a, a_value a)) (amounts (classifyAmounts cfg text (Some nas))))"
    using inv by (simp add: classInv_def)
  have C: "amounts (classifyAmounts cfg text None) = []"
    by (simp add: classifyAmounts_def)
  from A B C show ?thesis by blast
qed



lemma foldl_weak_cong: "a = b \<Longrightarrow> xs = ys \<Longrightarrow> foldl f a xs = foldl f b ys" by simp

lemma snippets_total_twice:
  "findContextSnippets (js ''Total: 5000|Total: 5000'') = [js ''Total: 5000'', js ''Total: 5000'']"
  by (simp add: findContextSnippets_def js_def trim_def isSpace_def cong: map_weak_cong filter_weak_cong)

lemma parseFloat_5000: "parseFloat (js ''5000'') = Fin 5000"
  by (simp add: parseFloat_def js_def isSpace_def isDigit_def digitsValue_def fl_numeral Let_def)

lemma round2_5000: "jdiv (mathRound (jmul (Fin 5000) (Fin 100))) (Fin 100) = Fin 5000"
  by (simp add: fl_numeral mathRound_numeral del: mathRound.simps)

lemma matches_total:
  "map (matchAll (js ''Total: 5000'')) amountPatterns
     = [[], [\<lparr> m_index = 5, m_end = 11, m_group = Some (7, 11) \<rparr>]]"
  by (simp add: amountPatterns_def numberPart_def rx_eval cong: map_weak_cong bex_weak_cong)



lemma concat_map_matches:
  "concat (map (\<lambda>pattern. concat (map f (matchAll s pattern))) ps)
     = concat (map (\<lambda>ms. concat (map f ms)) (map (matchAll s) ps))"
  by (simp add: comp_def)

lemma capture_total: "substring (js ''Total: 5000'') 7 11 = js ''5000''"
  "substring (js ''Total: 5000'') 5 11 = js '': 5000''"
  by (simp_all add: substring_def js_def)

lemma normalizeCapture_5000: "normalizeCapture (js ''5000'') = js ''5000''"
  by (simp add: normalizeCapture_def js_def isSpace_def)

lemma extract_total:
  "extractAmountsFromSnippet (js ''Total: 5000'')
     = [\<lparr> sa_value = Fin 5000, sa_raw = js '': 5000'', sa_position = 5 \<rparr>]"
proof -
  have m: "matchAmount (js ''Total: 5000'') \<lparr> m_index = 5, m_end = 11, m_group = Some (7, 11) \<rparr>
         = [\<lparr> sa_value = Fin 5000, sa_raw = js '': 5000'', sa_position = 5 \<rparr>]"
    unfolding matchAmount_def by (simp add: capture_total normalizeCapture_5000 parseFloat_5000
          round2_5000 isFinite_def Let_def del: jdiv.simps jmul.simps mathRound.simps) (simp add: js_def)
  show ?thesis
    unfolding extractAmountsFromSnippet_def Let_def concat_map_matches matches_total
    by (simp add: m)
qed

lemma scores_total:
  "map (\<lambda>r. ruleScore r (js ''Total: 5000'')) classificationRules = [30, 0, 0, 0, 0, 0, 0]"
  by (simp add: classificationRules_def ruleScore_def toLowerCase_def lowerUnit_def rx_eval
        cong: map_weak_cong bex_weak_cong filter_weak_cong)



lemma fl_consts:
  "fl (1 / 2) = Fin (1 / 2)"
  "fl (3 / 2) = Fin (3 / 2)"
  "fl (19 / 20) = Fin (4278419646001971 / 4503599627370496)"
  by code_simp+

lemma foldl_matchStep_keep:
  "\<forall>x\<in>set rs. ruleScore x s \<le> snd best \<Longrightarrow> foldl (matchStep s) best rs = best"
  by (induction rs) (simp_all add: matchStep_eq)

lemma match_first_rule:
  assumes "classificationRules = r # rs" and "0 < ruleScore r s"
      and "\<forall>x\<in>set rs. ruleScore x s \<le> ruleScore r s"
  shows "matchSnippetToType s = Some (bestOf s r)"
proof -
  have "foldl (matchStep s) (None, 0) (r # rs)
          = foldl (matchStep s) (Some (bestOf s r), ruleScore r s) rs"
    using assms(2) by (simp add: matchStep_eq)
  also have "\<dots> = (Some (bestOf s r), ruleScore r s)"
    by (rule foldl_matchStep_keep) (use assms(3) in simp)
  finally show ?thesis
    unfolding matchSnippetToType_def assms(1) by simp
qed

lemma rules_split: "classificationRules = hd classificationRules # tl classificationRules"
  by (simp add: classificationRules_def)

lemma match_total:
  "matchSnippetToType (js ''Total: 5000'') = Some (bestOf (js ''Total: 5000'') (hd classificationRules))"
proof (rule match_first_rule[OF rules_split])
  have "map (\<lambda>r. ruleScore r (js ''Total: 5000'')) (hd classificationRules # tl classificationRules)
          = [30, 0, 0, 0, 0, 0, 0]"
    using scores_total rules_split by simp
  then have h: "ruleScore (hd classificationRules) (js ''Total: 5000'') = 30"
    and t: "map (\<lambda>r. ruleScore r (js ''Total: 5000'')) (tl classificationRules) = [0, 0, 0, 0, 0, 0]"
    by simp_all
  from h show "0 < ruleScore (hd classificationRules) (js ''Total: 5000'')" by simp
  show "\<forall>x\<in>set (tl classificationRules).
          ruleScore x (js ''Total: 5000'') \<le> ruleScore (hd classificationRules) (js ''Total: 5000'')"
  proof
    fix x assume "x \<in> set (tl classificationRules)"
    then have "ruleScore x (js ''Total: 5000'') \<in> set (map (\<lambda>r. ruleScore r (js ''Total: 5000'')) (tl classificationRules))"
      by simp
    then have "ruleScore x (js ''Total: 5000'') = 0" unfolding t by simp
    then show "ruleScore x (js ''Total: 5000'') \<le> ruleScore (hd classificationRules) (js ''Total: 5000'')"
      by simp
  qed
qed

lemma best_total:
  "tm_type (bestOf (js ''Total: 5000'') (hd classificationRules)) = total_bill"
  "tm_confidence (bestOf (js ''Total: 5000'') (hd classificationRules))
     = Fin (4278419646001971 / 4503599627370496)"
proof -
  have "map (\<lambda>r. ruleScore r (js ''Total: 5000'')) (hd classificationRules # tl classificationRules)
          = [30, 0, 0, 0, 0, 0, 0]"
    using scores_total rules_split by simp
  then have h: "ruleScore (hd classificationRules) (js ''Total: 5000'') = 30" by simp
  show "tm_type (bestOf (js ''Total: 5000'') (hd classificationRules)) = total_bill"
    by (simp add: bestOf_def classificationRules_def)
  show "tm_confidence (bestOf (js ''Total: 5000'') (hd classificationRules))
     = Fin (4278419646001971 / 4503599627370496)"
    by (simp add: bestOf_def h fl_1 fl_consts mathMin_def)
qed



lemma find_5000:
  "find (\<lambda>na. jlt (jabs (jsub na (Fin 5000))) (lit (1 / 100))) [Fin 5000] = Some (Fin 5000)"
  by (simp add: jsub_def fl_0 fl_cent)

lemma not_low_confidence:
  "\<not> jle (Fin (4278419646001971 / 4503599627370496)) (lit (1 / 2))"
  by (simp add: jle_def fl_consts)

lemma len_total: "length (js ''Total: 5000'') = 11"
  by (simp add: js_def)

lemma classifyValue_total_new:
  "(total_bill, Fin 5000) \<notin> set (cs_pairs st) \<Longrightarrow>
   cs_amounts (classifyValue [Fin 5000] (js ''Total: 5000'') st (Fin 5000)) = cs_amounts st @ [totalEntry]
   \<and> cs_pairs (classifyValue [Fin 5000] (js ''Total: 5000'') st (Fin 5000))
        = cs_pairs st @ [(total_bill, Fin 5000)]"
  unfolding classifyValue_def find_5000 match_total
  by (simp add: truthy_def best_total not_low_confidence totalEntry_def len_total)

lemma classifyValue_total_old:
  "(total_bill, Fin 5000) \<in> set (cs_pairs st) \<Longrightarrow>
   classifyValue [Fin 5000] (js ''Total: 5000'') st (Fin 5000) = st"
  unfolding classifyValue_def find_5000 match_total
  by (simp add: truthy_def best_total not_low_confidence)

lemma classify_total_twice:
  "amounts (classifyAmounts cfg (Some (js ''Total: 5000|Total: 5000'')) (Some [Fin 5000]))
     = [\<lparr> a_type = total_bill, a_value = Fin 5000,
          a_source = js ''text: '' @ [39] @ js ''Total: 5000'' @ [39] \<rparr>]"
proof -
  define st0 :: class_state where "st0 = \<lparr> cs_amounts = [], cs_details = [], cs_pairs = [] \<rparr>"
  define st1 where "st1 = classifySnippet [Fin 5000] st0 (js ''Total: 5000'')"
  have s1: "st1 = classifyValue [Fin 5000] (js ''Total: 5000'') st0 (Fin 5000)"
    by (simp add: st1_def classifySnippet_def extract_total)
  have "(total_bill, Fin 5000) \<notin> set (cs_pairs st0)" by (simp add: st0_def)
  from classifyValue_total_new[OF this]
  have a1: "cs_amounts st1 = [totalEntry]" and p1: "cs_pairs st1 = [(total_bill, Fin 5000)]"
    unfolding s1 by (simp_all add: st0_def)
  from p1 have "(total_bill, Fin 5000) \<in> set (cs_pairs st1)" by simp
  from classifyValue_total_old[OF this]
  have s2: "classifySnippet [Fin 5000] st1 (js ''Total: 5000'') = st1"
    by (simp add: classifySnippet_def extract_total)
  have fold: "foldl (classifySnippet [Fin 5000]) st0 [js ''Total: 5000'', js ''Total: 5000''] = st1"
    by (simp add: s2 st1_def[symmetric])
  have ne: "js ''Total: 5000|Total: 5000'' \<noteq> []" by (simp add: js_def)
  have "amounts (classifyAmounts cfg (Some (js ''Total: 5000|Total: 5000'')) (Some [Fin 5000]))
      = map (\<lambda>a. \<lparr> a_type = c_type a, a_value = c_value a, a_source = c_source a \<rparr>)
          (cs_amounts (foldl (classifySnippet [Fin 5000]) st0
             (findContextSnippets (js ''Total: 5000|Total: 5000''))))"
    using ne by (simp add: classifyAmounts_def Let_def st0_def)
  also have "\<dots> = [\<lparr> a_type = total_bill, a_value = Fin 5000,
          a_source = js ''text: '' @ [39] @ js ''Total: 5000'' @ [39] \<rparr>]"
    unfolding snippets_total_twice fold a1 by (simp add: totalEntry_def)
  finally show ?thesis .
qed

theorem classifyAmounts_values_and_pairs_witness:
  "amounts (classifyAmounts defaultConfig (Some (js ''Total: 5000|Total: 5000'')) (Some [Fin 5000]))
     = [\<lparr> a_type = total_bill, a_value = Fin 5000,
          a_source = js ''text: '' @ [39] @ js ''Total: 5000'' @ [39] \<rparr>]
   \<and> distinct (map (\<lambda>a. (a_type a, a_value a))
        (amounts (classifyAmounts defaultConfig (Some (js ''Total: 5000|Total: 5000'')) (Some [Fin 5000]))))
   \<and> list_all (\<lambda>a. a_value a \<in> set [Fin 5000])
        (amounts (classifyAmounts defaultConfig (Some (js ''Total: 5000|Total: 5000'')) (Some [Fin 5000])))"
proof -
  note t = classifyAmounts_values_and_pairs
             [of defaultConfig "Some (js ''Total: 5000|Total: 5000'')" "[Fin 5000]"]
  from t have d: "distinct (map (\<lambda>a. (a_type a, a_value a))
        (amounts (classifyAmounts defaultConfig (Some (js ''Total: 5000|Total: 5000'')) (Some [Fin 5000]))))"
    by (elim conjE)
  from t have "\<forall>a\<in>set (amounts (classifyAmounts defaultConfig (Some (js ''Total: 5000|Total: 5000'')) (Some [Fin 5000]))).
       a_value a \<in> set [Fin 5000]"
    by blast
  then have l: "list_all (\<lambda>a. a_value a \<in> set [Fin 5000])
        (amounts (classifyAmounts defaultConfig (Some (js ''Total: 5000|Total: 5000'')) (Some [Fin 5000])))"
    by (simp only: list_all_iff)
  from classify_total_twice[of defaultConfig] d l show ?thesis by (intro conjI)
qed


section \<open>Currency detection\<close>

lemma sortBy_Cons: "sortBy cmp (x # xs) = insertBy cmp x (sortBy cmp xs)"
  by (simp add: sortBy_def)

lemma sortBy_Nil: "sortBy cmp [] = []"
  by (simp add: sortBy_def)

lemma insertBy_not_Nil: "insertBy cmp x ys \<noteq> []"
  by (cases ys) simp_all

lemma sortBy_Nil_iff: "sortBy cmp xs = [] \<longleftrightarrow> xs = []"
  by (cases xs) (simp_all add: sortBy_Nil sortBy_Cons insertBy_not_Nil)

lemma hd_insertBy:
  "hd (insertBy cmp x ys) = (if ys = [] \<or> cmp x (hd ys) \<le> 0 then x else hd ys)"
  by (cases ys) simp_all

text \<open>The head of the sorted list: the first entry, in the given order, with the highest count.\<close>

lemma hd_sortBy_count:
  fixes xs :: "('a \<times> nat) list"
  assumes "xs \<noteq> []"
  shows "(\<forall>e\<in>set xs. snd e \<le> snd (hd (sortBy (\<lambda>a b. int (snd b) - int (snd a)) xs)))
       \<and> find (\<lambda>e. snd e = snd (hd (sortBy (\<lambda>a b. int (snd b) - int (snd a)) xs))) xs
           = Some (hd (sortBy (\<lambda>a b. int (snd b) - int (snd a)) xs))"
  using assms
proof (induction xs)
  case Nil
  then show ?case by simp
next
  case (Cons x xs)
  let ?cmp = "\<lambda>a b :: 'a \<times> nat. int (snd b) - int (snd a)"
  show ?case
  proof (cases "xs = []")
    case True
    then show ?thesis by (simp add: sortBy_Cons sortBy_Nil)
  next
    case False
    let ?m = "hd (sortBy ?cmp xs)"
    from Cons.IH[OF False] have le: "\<forall>e\<in>set xs. snd e \<le> snd ?m"
      and fi: "find (\<lambda>e. snd e = snd ?m) xs = Some ?m" by simp_all
    have ne: "sortBy ?cmp xs \<noteq> []" using False by (simp add: sortBy_Nil_iff)
    show ?thesis
    proof (cases "snd ?m \<le> snd x")
      case True
      then have h: "hd (sortBy ?cmp (x # xs)) = x"
        using ne by (simp add: sortBy_Cons hd_insertBy)
      show ?thesis unfolding h using le True by auto
    next
      case False
      then have h: "hd (sortBy ?cmp (x # xs)) = ?m"
        using ne by (simp add: sortBy_Cons hd_insertBy)
      show ?thesis unfolding h using le fi False by auto
    qed
  qed
qed

lemma find_Some_mem: "find P xs = Some x \<Longrightarrow> x \<in> set xs \<and> P x"
  by (induction xs) (auto split: if_splits)

lemma find_filter: "(\<And>e. P e \<Longrightarrow> Q e) \<Longrightarrow> find P (filter Q xs) = find P xs"
  by (induction xs) auto

lemma currencyMatches_eq:
  "currencyMatches text =
     filter (\<lambda>e. 0 < snd e)
       (map (\<lambda>h. (snd h, length (matchAll (toLowerCase text) (fst h)))) currencyHints)"
proof -
  have "concat (map (\<lambda>(pattern, code). let n = length (matchAll t pattern)
                          in if 0 < n then [(code, n)] else []) hs)
        = filter (\<lambda>e. 0 < snd e) (map (\<lambda>h. (snd h, length (matchAll t (fst h)))) hs)" for t hs
    by (induction hs) (auto simp: Let_def)
  then show ?thesis by (simp add: currencyMatches_def Let_def)
qed

lemma hints_codes: "map snd currencyHints = [INR, USD, EUR, GBP]"
  by (simp add: currencyHints_def)

lemma hints_length: "length currencyHints = 4"
  by (simp add: currencyHints_def)

lemma hints_entries:
  "map (\<lambda>h. (snd h, f (fst h))) currencyHints
     = [(INR, f (fst (currencyHints ! 0))), (USD, f (fst (currencyHints ! 1))),
        (EUR, f (fst (currencyHints ! 2))), (GBP, f (fst (currencyHints ! 3)))]"
  by (simp add: currencyHints_def)

lemma detectCurrency_counts:
  fixes inp :: jsstring
  defines "nI \<equiv> length (matchAll (toLowerCase inp) (fst (currencyHints ! 0)))"
      and "nU \<equiv> length (matchAll (toLowerCase inp) (fst (currencyHints ! 1)))"
      and "nE \<equiv> length (matchAll (toLowerCase inp) (fst (currencyHints ! 2)))"
      and "nG \<equiv> length (matchAll (toLowerCase inp) (fst (currencyHints ! 3)))"
  shows "detectCurrency inp =
           (if nI = 0 \<and> nU = 0 \<and> nE = 0 \<and> nG = 0 then USD
            else if nU \<le> nI \<and> nE \<le> nI \<and> nG \<le> nI then INR
            else if nE \<le> nU \<and> nG \<le> nU then USD
            else if nG \<le> nE then EUR
            else GBP)"
proof -
  define all where "all = [(INR, nI), (USD, nU), (EUR, nE), (GBP, nG)]"
  let ?cmp = "\<lambda>a b :: currency \<times> nat. int (snd b) - int (snd a)"
  have cm: "currencyMatches inp = filter (\<lambda>e. 0 < snd e) all"
    unfolding currencyMatches_eq nI_def nU_def nE_def nG_def all_def
    using hints_entries[of "\<lambda>p. length (matchAll (toLowerCase inp) p)"] by simp
  show ?thesis
  proof (cases "nI = 0 \<and> nU = 0 \<and> nE = 0 \<and> nG = 0")
    case True
    then have "filter (\<lambda>e. 0 < snd e) all = []" by (simp add: all_def)
    then show ?thesis using True by (simp add: detectCurrency_def cm sortBy_Nil)
  next
    case False
    then have ne: "filter (\<lambda>e. 0 < snd e) all \<noteq> []" by (auto simp: all_def)
    define m where "m = hd (sortBy ?cmp (filter (\<lambda>e. 0 < snd e) all))"
    note hs = hd_sortBy_count[OF ne, folded m_def]
    have le: "\<forall>e\<in>set (filter (\<lambda>e. 0 < snd e) all). snd e \<le> snd m"
      using hs by (rule conjunct1)
    have fi: "find (\<lambda>e. snd e = snd m) (filter (\<lambda>e. 0 < snd e) all) = Some m"
      using hs by (rule conjunct2)
    from find_Some_mem[OF fi] have "m \<in> set (filter (\<lambda>e. 0 < snd e) all)"
      by (rule conjunct1)
    then have pos: "0 < snd m" by simp
    have "find (\<lambda>e. snd e = snd m) (filter (\<lambda>e. 0 < snd e) all) = find (\<lambda>e. snd e = snd m) all"
      by (rule find_filter) (use pos in simp)
    with fi have fi': "find (\<lambda>e. snd e = snd m) all = Some m" by simp
    have le': "snd e \<le> snd m" if "e \<in> set all" for e
    proof (cases "0 < snd e")
      case True
      with that have "e \<in> set (filter (\<lambda>e. 0 < snd e) all)" by simp
      with le show ?thesis by blast
    next
      case False
      then show ?thesis by simp
    qed
    have b: "nI \<le> snd m" "nU \<le> snd m" "nE \<le> snd m" "nG \<le> snd m"
      using le'[of "(INR, nI)"] le'[of "(USD, nU)"] le'[of "(EUR, nE)"] le'[of "(GBP, nG)"]
      by (simp_all add: all_def)
    have "sortBy ?cmp (filter (\<lambda>e. 0 < snd e) all) \<noteq> []"
      using ne by (simp add: sortBy_Nil_iff)
    then have dc: "detectCurrency inp = fst m"
      by (simp add: detectCurrency_def cm m_def split: list.split)
    obtain c k where mk: "m = (c, k)" by (cases m)
    from b have bk: "nI \<le> k" "nU \<le> k" "nE \<le> k" "nG \<le> k" by (simp_all add: mk)
    from pos have kpos: "0 < k" by (simp add: mk)
    from fi' have "(k = nI \<and> c = INR)
        \<or> (k \<noteq> nI \<and> k = nU \<and> c = USD)
        \<or> (k \<noteq> nI \<and> k \<noteq> nU \<and> k = nE \<and> c = EUR)
        \<or> (k \<noteq> nI \<and> k \<noteq> nU \<and> k \<noteq> nE \<and> k = nG \<and> c = GBP)"
      by (auto simp: all_def mk split: if_splits)
    then have "c = (if nU \<le> nI \<and> nE \<le> nI \<and> nG \<le> nI then INR
            else if nE \<le> nU \<and> nG \<le> nU then USD
            else if nG \<le> nE then EUR
            else GBP)"
      using bk by (elim disjE conjE) simp_all
    with False show ?thesis
      unfolding dc by (simp add: mk)
  qed
qed



lemma less_4_cases: "k < (4::nat) \<Longrightarrow> k = 0 \<or> k = 1 \<or> k = 2 \<or> k = 3"
  by arith

lemma all_less_4: "(\<forall>k<4::nat. P k) \<longleftrightarrow> P 0 \<and> P 1 \<and> P 2 \<and> P 3"
  using less_4_cases by (auto simp: numeral_eq_Suc less_Suc_eq)

lemma all_less_3: "(\<forall>k<3::nat. P k) \<longleftrightarrow> P 0 \<and> P 1 \<and> P 2"
  by (auto simp: numeral_eq_Suc less_Suc_eq)

lemma all_less_2: "(\<forall>k<2::nat. P k) \<longleftrightarrow> P 0 \<and> P 1"
  by (auto simp: numeral_eq_Suc less_Suc_eq)

lemma hints_nth_codes:
  "snd (currencyHints ! 0) = INR" "snd (currencyHints ! 1) = USD" "snd (currencyHints ! Suc 0) = USD"
  "snd (currencyHints ! 2) = EUR" "snd (currencyHints ! 3) = GBP"
  by (simp_all add: currencyHints_def)

text \<open>
  Claim C7.  \<open>detectCurrency\<close> counts the matches of the four currency patterns, taken in
  the order INR, USD, EUR, GBP, in the whole lower-cased text.  When no pattern matches it
  returns USD.  Otherwise it returns the code of a pattern whose count is the highest, and
  every pattern before it in that order has a strictly smaller count: among the patterns
  with the highest count the first one wins.  The result is a function of the text alone,
  since \<^verbatim>\<open>lastIndex\<close> is reset before every pattern is used.
\<close>

theorem detectCurrency_highest_count_first_wins:
  "map snd currencyHints = [INR, USD, EUR, GBP]
   \<and> (if \<forall>k<4. hintCount inp k = 0 then detectCurrency inp = USD
      else \<exists>k<4. detectCurrency inp = snd (currencyHints ! k)
             \<and> (\<forall>j<4. hintCount inp j \<le> hintCount inp k)
             \<and> (\<forall>j<k. hintCount inp j < hintCount inp k))"
proof (intro conjI)
  show "map snd currencyHints = [INR, USD, EUR, GBP]" by (rule hints_codes)
next
  let ?n = "hintCount inp"
  note dc = detectCurrency_counts[of inp, folded hintCount_def]
  show "if \<forall>k<4. ?n k = 0 then detectCurrency inp = USD
      else \<exists>k<4. detectCurrency inp = snd (currencyHints ! k)
             \<and> (\<forall>j<4. ?n j \<le> ?n k) \<and> (\<forall>j<k. ?n j < ?n k)"
  proof (cases "\<forall>k<4. ?n k = 0")
    case True
    then have "?n 0 = 0 \<and> ?n 1 = 0 \<and> ?n 2 = 0 \<and> ?n 3 = 0" by (simp add: all_less_4)
    then have usd: "detectCurrency inp = USD" by (simp add: dc)
    show ?thesis unfolding if_P[OF True] by (rule usd)
  next
    case False
    then have nz: "\<not> (?n 0 = 0 \<and> ?n 1 = 0 \<and> ?n 2 = 0 \<and> ?n 3 = 0)" by (simp add: all_less_4)
    have ex: "\<exists>k<4. detectCurrency inp = snd (currencyHints ! k)
             \<and> (\<forall>j<4. ?n j \<le> ?n k) \<and> (\<forall>j<k. ?n j < ?n k)"
    proof (cases "?n 1 \<le> ?n 0 \<and> ?n 2 \<le> ?n 0 \<and> ?n 3 \<le> ?n 0")
      case True
      with nz have "detectCurrency inp = snd (currencyHints ! 0)" by (simp add: dc hints_nth_codes)
      moreover have "\<forall>j<4. ?n j \<le> ?n 0" using True by (simp add: all_less_4)
      ultimately show ?thesis by (intro exI[of _ 0]) simp
    next
      case n0: False
      show ?thesis
      proof (cases "?n 2 \<le> ?n 1 \<and> ?n 3 \<le> ?n 1")
        case True
        with nz n0 have "detectCurrency inp = snd (currencyHints ! 1)"
          by (simp add: dc hints_nth_codes)
        moreover from True n0 have "?n 0 < ?n 1" by auto
        moreover from this True have "\<forall>j<4. ?n j \<le> ?n 1" by (simp add: all_less_4)
        ultimately show ?thesis by (intro exI[of _ 1]) simp
      next
        case n1: False
        show ?thesis
        proof (cases "?n 3 \<le> ?n 2")
          case True
          with nz n0 n1 have "detectCurrency inp = snd (currencyHints ! 2)"
            by (simp add: dc hints_nth_codes)
          moreover from True n0 n1 have lt: "?n 0 < ?n 2" "?n 1 < ?n 2" by auto
          moreover from lt True have "\<forall>j<4. ?n j \<le> ?n 2" by (simp add: all_less_4)
          ultimately show ?thesis by (intro exI[of _ 2]) (simp add: all_less_2)
        next
          case n2: False
          with nz n0 n1 have "detectCurrency inp = snd (currencyHints ! 3)"
            by (simp add: dc hints_nth_codes)
          moreover from n0 n1 n2 have lt: "?n 0 < ?n 3" "?n 1 < ?n 3" "?n 2 < ?n 3" by auto
          moreover from lt have "\<forall>j<4. ?n j \<le> ?n 3" by (simp add: all_less_4)
          ultimately show ?thesis by (intro exI[of _ 3]) (simp add: all_less_3)
        qed
      qed
    qed
    show ?thesis unfolding if_not_P[OF False] by (rule ex)
  qed
qed


lemma counts_three_signs:
  "map (hintCount (js ''Total: $100 | Paid: '' @ [euro] @ js ''80 | Due: '' @ [pound] @ js ''20'')) [0, 1, 2, 3]
     = [0, 1, 1, 1]"
  by (simp add: hintCount_def currencyHints_def toLowerCase_def lowerUnit_def rx_eval
        cong: map_weak_cong bex_weak_cong filter_weak_cong)


theorem detectCurrency_highest_count_first_wins_witness:
  "hintCount (js ''Total: $100 | Paid: '' @ [euro] @ js ''80 | Due: '' @ [pound] @ js ''20'') 0 = 0
   \<and> hintCount (js ''Total: $100 | Paid: '' @ [euro] @ js ''80 | Due: '' @ [pound] @ js ''20'') 1 = 1
   \<and> hintCount (js ''Total: $100 | Paid: '' @ [euro] @ js ''80 | Due: '' @ [pound] @ js ''20'') 2 = 1
   \<and> hintCount (js ''Total: $100 | Paid: '' @ [euro] @ js ''80 | Due: '' @ [pound] @ js ''20'') 3 = 1
   \<and> detectCurrency (js ''Total: $100 | Paid: '' @ [euro] @ js ''80 | Due: '' @ [pound] @ js ''20'') = USD"
proof -
  let ?t = "js ''Total: $100 | Paid: '' @ [euro] @ js ''80 | Due: '' @ [pound] @ js ''20''"
  from counts_three_signs
  have n: "hintCount ?t 0 = 0" "hintCount ?t 1 = 1" "hintCount ?t 2 = 1" "hintCount ?t 3 = 1"
    by simp_all
  then have nz: "\<not> (\<forall>k<4. hintCount ?t k = 0)" by (simp add: all_less_4)
  from detectCurrency_highest_count_first_wins[of ?t]
  have "if \<forall>k<4. hintCount ?t k = 0 then detectCurrency ?t = USD
      else \<exists>k<4. detectCurrency ?t = snd (currencyHints ! k)
             \<and> (\<forall>j<4. hintCount ?t j \<le> hintCount ?t k)
             \<and> (\<forall>j<k. hintCount ?t j < hintCount ?t k)"
    by (rule conjunct2)
  then obtain k where k: "k < 4" "detectCurrency ?t = snd (currencyHints ! k)"
      and le: "\<forall>j<4. hintCount ?t j \<le> hintCount ?t k"
      and lt: "\<forall>j<k. hintCount ?t j < hintCount ?t k"
    unfolding if_not_P[OF nz] by blast
  from le have le1: "hintCount ?t 1 \<le> hintCount ?t k" by simp
  from k(1) have "k = 0 \<or> k = 1 \<or> k = 2 \<or> k = 3" by (rule less_4_cases)
  then have "k = 1"
  proof (elim disjE)
    assume "k = 0" with le1 n show ?thesis by simp
  next
    assume "k = 1" then show ?thesis .
  next
    assume k2: "k = 2"
    with lt have "hintCount ?t 1 < hintCount ?t 2" by simp
    with n show ?thesis by simp
  next
    assume k3: "k = 3"
    with lt have "hintCount ?t 1 < hintCount ?t 3" by simp
    with n show ?thesis by simp
  qed
  with k(2) have "detectCurrency ?t = USD" by (simp add: hints_nth_codes)
  with n show ?thesis by (intro conjI)
qed


section \<open>The pipeline\<close>

lemma noNumbers_sanitize: "sanitizeText noNumbers = noNumbers"
  by (simp add: sanitizeText_def noNumbers_def js_def)

lemma noNumbers_snippets: "findContextSnippets noNumbers = [noNumbers]"
  by (simp add: findContextSnippets_def noNumbers_def js_def trim_def isSpace_def)

lemma noNumbers_exclude:
  "matchesExcludePattern excludePatterns [0, 0, 0, 0, 0, 0, 0] noNumbers = (False, [0, 0, 0, 0, 0, 0, 0])"
  by (simp add: excludePatterns_def testGlobal_def noNumbers_def rx_eval
        cong: map_weak_cong bex_weak_cong filter_weak_cong)


lemma noNumbers_keyword: "anyKeyword monetaryKeywords (toLowerCase noNumbers) = True"
  by (simp add: monetaryKeywords_def toLowerCase_def lowerUnit_def noNumbers_def js_def)

lemma noNumbers_monetary:
  "isMonetaryLine [0, 0, 0, 0, 0, 0, 0] noNumbers = (True, [0, 0, 0, 0, 0, 0, 0])"
  by (simp add: isMonetaryLine_def noNumbers_exclude noNumbers_keyword)

lemma noNumbers_matches:
  "matchAll noNumbers tokenPattern = [\<lparr> m_index = 32, m_end = 36, m_group = Some (35, 36) \<rparr>]"
  by (simp add: tokenPattern_def numberPart_def noNumbers_def rx_eval
        cong: map_weak_cong bex_weak_cong filter_weak_cong)

lemma noNumbers_token:
  "tokenStep noNumbers acc \<lparr> m_index = 32, m_end = 36, m_group = Some (35, 36) \<rparr> = acc"
proof -
  have t: "trim (substring noNumbers 35 36) = js ''o''"
    by (simp add: substring_def noNumbers_def js_def trim_def isSpace_def)
  have n: "normalizeCapture (js ''o'') = js ''o''"
    by (simp add: normalizeCapture_def js_def isSpace_def)
  have p: "parseFloat (js ''o'') = NaN"
    by (simp add: parseFloat_def js_def isSpace_def isDigit_def Let_def)
  have e: "js ''o'' \<noteq> []" by (simp add: js_def)
  show ?thesis
    unfolding tokenStep_def by (simp add: t n p e isFinite_def jle_def Let_def)
qed

lemma noNumbers_tokens:
  "extractNumericTokensFromText [0, 0, 0, 0, 0, 0, 0] noNumbers = ([], [0, 0, 0, 0, 0, 0, 0])"
  by (simp add: extractNumericTokensFromText_def noNumbers_snippets segmentStep_def
        noNumbers_monetary noNumbers_matches noNumbers_token)

lemma noNumbers_counts:
  "map (\<lambda>h. length (matchAll (toLowerCase noNumbers) (fst h))) currencyHints = [0, 0, 0, 0]"
  by (simp add: currencyHints_def toLowerCase_def lowerUnit_def noNumbers_def rx_eval
        cong: map_weak_cong bex_weak_cong filter_weak_cong)


lemma noNumbers_currency: "detectCurrency noNumbers = USD"
proof -
  have "currencyMatches noNumbers = []"
    unfolding currencyMatches_eq using noNumbers_counts by (simp add: currencyHints_def)
  then show ?thesis by (simp add: detectCurrency_def sortBy_Nil)
qed

lemma noNumbers_not_blank: "noNumbers \<noteq> []" "trim noNumbers \<noteq> []"
  by (simp_all add: noNumbers_def js_def trim_def isSpace_def)

lemma noNumbers_extract:
  "extractFromTextOrImage noCollaborators [0, 0, 0, 0, 0, 0, 0] (textOnly noNumbers)
     = (Inr \<lparr> raw_tokens = [], currency_hint = Some USD, ocr_confidence = Fin 0,
               extracted_text = noNumbers \<rparr>, [0, 0, 0, 0, 0, 0, 0])"
  unfolding extractFromTextOrImage_def
  by (simp add: textOnly_def noCollaborators_def noNumbers_not_blank noNumbers_tokens
        noNumbers_currency calculateConfidence_def roundFixed2_zero Let_def)

lemma extract_tokens_text:
  assumes "extractFromTextOrImage e st q = (Inr r, st')" and "raw_tokens r \<noteq> []"
  shows "extracted_text r \<noteq> []"
proof -
  show ?thesis
    using assms unfolding extractFromTextOrImage_def Let_def
    by (auto split: option.splits sum.splits if_splits prod.splits)
qed

text \<open>
  Claim C1.  Take a request that carries a text, an image or a file, and let the extractor
  return a result for it.  The route \<^verbatim>\<open>/final\<close> answers \<^verbatim>\<open>no_amounts_found\<close>, with its reason
  and the extracted text, exactly when the list of raw tokens is empty.  It answers
  \<^verbatim>\<open>normalization_failed\<close>, with its reason, the raw tokens and the extracted text, exactly
  when there are raw tokens and \<open>normalizeTokens\<close> yields no amount.  In the remaining case,
  and only then, it answers with status \<^verbatim>\<open>ok\<close>: the currency hint of the extractor and the
  amounts that \<open>classifyAmounts\<close> finds in the extracted text for the normalized amounts.
  (A request without input is answered with code 400 before the extractor runs, and an
  error of the OCR engine is passed on to the error handler.)
\<close>

theorem finalRoute_guardrails:
  assumes "present (q_text q) \<or> present (q_image_base64 q) \<or> q_fileBuffer q \<noteq> None"
    and "extractFromTextOrImage e st
           (q \<lparr> q_text := (if present (q_text q) then Some (sanitizeText (the (q_text q))) else None) \<rparr>)
         = (Inr r, st')"
  shows "(raw_tokens r = [] \<longrightarrow>
            fst (finalRoute e st q)
              = NoAmountsFound (js ''document too noisy or contains no numeric amounts'')
                  (extracted_text r))
       \<and> (raw_tokens r \<noteq> [] \<and> normalized_amounts (normalizeTokens (e_config e) (raw_tokens r)) = [] \<longrightarrow>
            fst (finalRoute e st q)
              = NormalizationFailed
                  (js ''could not parse any valid numeric amounts from extracted tokens'')
                  (raw_tokens r) (extracted_text r))
       \<and> (raw_tokens r \<noteq> [] \<and> normalized_amounts (normalizeTokens (e_config e) (raw_tokens r)) \<noteq> [] \<longrightarrow>
            (\<exists>meta llm. fst (finalRoute e st q)
              = Ok (currency_hint r)
                  (map (\<lambda>a. a \<lparr> a_source := (if a_source a \<noteq> [] then a_source a else js ''inferred'') \<rparr>)
                     (amounts (classifyAmounts (e_config e) (Some (extracted_text r))
                        (Some (normalized_amounts (normalizeTokens (e_config e) (raw_tokens r)))))))
                  meta llm))
       \<and> ((\<exists>reason t. fst (finalRoute e st q) = NoAmountsFound reason t) \<longleftrightarrow> raw_tokens r = [])
       \<and> ((\<exists>reason ts t. fst (finalRoute e st q) = NormalizationFailed reason ts t)
            \<longleftrightarrow> raw_tokens r \<noteq> []
                \<and> normalized_amounts (normalizeTokens (e_config e) (raw_tokens r)) = [])
       \<and> ((\<exists>c as meta llm. fst (finalRoute e st q) = Ok c as meta llm)
            \<longleftrightarrow> raw_tokens r \<noteq> []
                \<and> normalized_amounts (normalizeTokens (e_config e) (raw_tokens r)) \<noteq> [])"
proof -
  let ?n = "normalized_amounts (normalizeTokens (e_config e) (raw_tokens r))"
  have inp: "\<not> (\<not> present (q_text q) \<and> \<not> present (q_image_base64 q) \<and> q_fileBuffer q = None)"
    using assms(1) by simp
  have a: "fst (finalRoute e st q)
              = NoAmountsFound (js ''document too noisy or contains no numeric amounts'')
                  (extracted_text r)" if "raw_tokens r = []"
    unfolding finalRoute_def if_not_P[OF inp] Let_def assms(2) using that by simp
  have b: "fst (finalRoute e st q)
              = NormalizationFailed
                  (js ''could not parse any valid numeric amounts from extracted tokens'')
                  (raw_tokens r) (extracted_text r)" if "raw_tokens r \<noteq> []" "?n = []"
    unfolding finalRoute_def if_not_P[OF inp] Let_def assms(2) using that by simp
  have c: "\<exists>meta llm. fst (finalRoute e st q)
              = Ok (currency_hint r)
                  (map (\<lambda>a. a \<lparr> a_source := (if a_source a \<noteq> [] then a_source a else js ''inferred'') \<rparr>)
                     (amounts (classifyAmounts (e_config e) (Some (extracted_text r)) (Some ?n))))
                  meta llm" if "raw_tokens r \<noteq> []" "?n \<noteq> []"
  proof -
    from extract_tokens_text[OF assms(2) that(1)] have t: "extracted_text r \<noteq> []" .
    show ?thesis
      unfolding finalRoute_def if_not_P[OF inp] Let_def assms(2) using that t by simp
  qed
  show ?thesis
  proof (cases "raw_tokens r = []")
    case True
    with a show ?thesis by simp
  next
    case False
    show ?thesis
    proof (cases "?n = []")
      case True
      with False b show ?thesis by simp
    next
      case n: False
      from c[OF False n] obtain meta llm where "fst (finalRoute e st q)
              = Ok (currency_hint r)
                  (map (\<lambda>a. a \<lparr> a_source := (if a_source a \<noteq> [] then a_source a else js ''inferred'') \<rparr>)
                     (amounts (classifyAmounts (e_config e) (Some (extracted_text r)) (Some ?n))))
                  meta llm" by blast
      with False n show ?thesis by simp
    qed
  qed
qed


lemma exclude_total:
  "matchesExcludePattern excludePatterns [0, 0, 0, 0, 0, 0, 0] (js ''Total: l'') = (False, [0, 0, 0, 0, 0, 0, 0])"
  "matchesExcludePattern excludePatterns [0, 0, 0, 0, 0, 0, 0] (js ''Total: 5000'') = (False, [0, 0, 0, 0, 0, 0, 0])"
  by (simp_all add: excludePatterns_def testGlobal_def rx_eval
        cong: map_weak_cong bex_weak_cong filter_weak_cong)

lemma keyword_total:
  "anyKeyword monetaryKeywords (toLowerCase (js ''Total: l'')) = True"
  "anyKeyword monetaryKeywords (toLowerCase (js ''Total: 5000'')) = True"
  by (simp_all add: monetaryKeywords_def toLowerCase_def lowerUnit_def js_def)

lemma monetary_total:
  "isMonetaryLine [0, 0, 0, 0, 0, 0, 0] (js ''Total: l'') = (True, [0, 0, 0, 0, 0, 0, 0])"
  "isMonetaryLine [0, 0, 0, 0, 0, 0, 0] (js ''Total: 5000'') = (True, [0, 0, 0, 0, 0, 0, 0])"
  by (simp_all add: isMonetaryLine_def exclude_total keyword_total)

lemma token_matches_total:
  "matchAll (js ''Total: l'') tokenPattern = [\<lparr> m_index = 5, m_end = 8, m_group = Some (7, 8) \<rparr>]"
  "matchAll (js ''Total: 5000'') tokenPattern = [\<lparr> m_index = 5, m_end = 11, m_group = Some (7, 11) \<rparr>]"
  by (simp_all add: tokenPattern_def numberPart_def rx_eval
        cong: map_weak_cong bex_weak_cong filter_weak_cong)

lemma tokenStep_letter:
  "tokenStep (js ''Total: l'') ([], []) \<lparr> m_index = 5, m_end = 8, m_group = Some (7, 8) \<rparr>
     = ([js ''l''], [js ''1''])"
proof -
  have t: "trim (substring (js ''Total: l'') 7 8) = js ''l''"
    by (simp add: substring_def js_def trim_def isSpace_def)
  have n: "normalizeCapture (js ''l'') = js ''1''"
    by (simp add: normalizeCapture_def js_def isSpace_def)
  have p: "parseFloat (js ''1'') = Fin 1"
    by (simp add: parseFloat_def js_def isSpace_def isDigit_def digitsValue_def fl_1 Let_def)
  have e: "js ''l'' \<noteq> []" "js ''1'' \<noteq> []" "(37::nat) \<notin> set (js ''l'')"
      "(37::nat) \<notin> set (js ''1'')"
    by (simp_all add: js_def)
  show ?thesis
    unfolding tokenStep_def by (simp add: t n p e isFinite_def jle_def Let_def)
qed

lemma tokenStep_5000:
  "tokenStep (js ''Total: 5000'') ([], []) \<lparr> m_index = 5, m_end = 11, m_group = Some (7, 11) \<rparr>
     = ([js ''5000''], [js ''5000''])"
  "tokenStep (js ''Total: 5000'') ([js ''5000''], [js ''5000''])
       \<lparr> m_index = 5, m_end = 11, m_group = Some (7, 11) \<rparr>
     = ([js ''5000''], [js ''5000''])"
proof -
  have t: "trim (substring (js ''Total: 5000'') 7 11) = js ''5000''"
    by (simp add: substring_def js_def trim_def isSpace_def)
  have e: "js ''5000'' \<noteq> []" "(37::nat) \<notin> set (js ''5000'')"
    by (simp_all add: js_def)
  show "tokenStep (js ''Total: 5000'') ([], []) \<lparr> m_index = 5, m_end = 11, m_group = Some (7, 11) \<rparr>
     = ([js ''5000''], [js ''5000''])"
    unfolding tokenStep_def by (simp add: t normalizeCapture_5000 parseFloat_5000 e isFinite_def jle_def Let_def)
  show "tokenStep (js ''Total: 5000'') ([js ''5000''], [js ''5000''])
       \<lparr> m_index = 5, m_end = 11, m_group = Some (7, 11) \<rparr>
     = ([js ''5000''], [js ''5000''])"
    unfolding tokenStep_def by (simp add: t normalizeCapture_5000 parseFloat_5000 e isFinite_def jle_def Let_def)
qed

lemma onlyLetter_tokens:
  "extractNumericTokensFromText [0, 0, 0, 0, 0, 0, 0] onlyLetter = ([js ''l''], [0, 0, 0, 0, 0, 0, 0])"
proof -
  have s: "findContextSnippets onlyLetter = [js ''Total: l'']"
    by (simp add: findContextSnippets_def onlyLetter_def js_def trim_def isSpace_def
          cong: map_weak_cong filter_weak_cong)
  show ?thesis
    by (simp add: extractNumericTokensFromText_def s segmentStep_def monetary_total
          token_matches_total tokenStep_letter)
qed

lemma totalTwice_tokens:
  "extractNumericTokensFromText [0, 0, 0, 0, 0, 0, 0] totalTwice = ([js ''5000''], [0, 0, 0, 0, 0, 0, 0])"
  by (simp add: extractNumericTokensFromText_def totalTwice_def snippets_total_twice segmentStep_def
        monetary_total token_matches_total tokenStep_5000)

lemma counts_total:
  "map (\<lambda>h. length (matchAll (toLowerCase onlyLetter) (fst h))) currencyHints = [0, 0, 0, 0]"
  "map (\<lambda>h. length (matchAll (toLowerCase totalTwice) (fst h))) currencyHints = [0, 0, 0, 0]"
  by (simp_all add: currencyHints_def toLowerCase_def lowerUnit_def onlyLetter_def totalTwice_def rx_eval
        cong: map_weak_cong bex_weak_cong filter_weak_cong)

lemma currency_total: "detectCurrency onlyLetter = USD" "detectCurrency totalTwice = USD"
proof -
  have "currencyMatches onlyLetter = []" "currencyMatches totalTwice = []"
    unfolding currencyMatches_eq using counts_total by (simp_all add: currencyHints_def)
  then show "detectCurrency onlyLetter = USD" "detectCurrency totalTwice = USD"
    by (simp_all add: detectCurrency_def sortBy_Nil)
qed

lemma not_blank_total:
  "onlyLetter \<noteq> []" "trim onlyLetter \<noteq> []" "totalTwice \<noteq> []" "trim totalTwice \<noteq> []"
  "sanitizeText onlyLetter = onlyLetter" "sanitizeText totalTwice = totalTwice"
  by (simp_all add: onlyLetter_def totalTwice_def js_def trim_def isSpace_def sanitizeText_def)

lemma onlyLetter_extract:
  "extractFromTextOrImage noCollaborators [0, 0, 0, 0, 0, 0, 0] (textOnly onlyLetter)
     = (Inr \<lparr> raw_tokens = [js ''l''], currency_hint = Some USD,
               ocr_confidence = roundFixed2 (calculateConfidence defaultConfig (Fin 0) 1 onlyLetter),
               extracted_text = onlyLetter \<rparr>, [0, 0, 0, 0, 0, 0, 0])"
  unfolding extractFromTextOrImage_def
  by (simp add: textOnly_def noCollaborators_def not_blank_total onlyLetter_tokens
        currency_total Let_def)

lemma totalTwice_extract:
  "extractFromTextOrImage noCollaborators [0, 0, 0, 0, 0, 0, 0] (textOnly totalTwice)
     = (Inr \<lparr> raw_tokens = [js ''5000''], currency_hint = Some USD,
               ocr_confidence = roundFixed2 (calculateConfidence defaultConfig (Fin 0) 1 totalTwice),
               extracted_text = totalTwice \<rparr>, [0, 0, 0, 0, 0, 0, 0])"
  unfolding extractFromTextOrImage_def
  by (simp add: textOnly_def noCollaborators_def not_blank_total totalTwice_tokens
        currency_total Let_def)

lemma normalize_letter: "normalized_amounts (normalizeTokens cfg [js ''l'']) = []"
proof -
  have "parseNumeric (js ''l'') = None"
    by (rule parseNumeric_no_digit) (simp add: js_def isDigit_def)
  then show ?thesis by (simp add: normalizeTokens_fields normalizeStep_None)
qed

lemma normalize_5000: "normalized_amounts (normalizeTokens cfg [js ''5000'']) = [Fin 5000]"
proof -
  have f: "fixOcrDigits (js ''5000'') = js ''5000''"
    by (simp add: fixOcrDigits_def str_eval)
  have "parseNumeric (js ''5000'') = Some \<lparr> p_type = js ''number'', p_value = Fin 5000,
      p_original = js ''5000'', p_normalized = js ''5000'' \<rparr>"
    unfolding parseNumeric_def Let_def f parseFloat_5000 round2_5000
    by (simp add: js_def isFinite_def fl_cent)
  then show ?thesis by (simp add: normalizeTokens_fields normalizeStep_def)
qed


lemma textOnly_request:
  assumes "t \<noteq> []" and "sanitizeText t = t"
  shows "present (q_text (textOnly t)) \<or> present (q_image_base64 (textOnly t))
           \<or> q_fileBuffer (textOnly t) \<noteq> None"
    and "(textOnly t) \<lparr> q_text := (if present (q_text (textOnly t))
              then Some (sanitizeText (the (q_text (textOnly t)))) else None) \<rparr>
           = textOnly t"
  using assms by (simp_all add: present_def textOnly_def)

theorem finalRoute_guardrails_witness:
  "fst (finalRoute noCollaborators [0, 0, 0, 0, 0, 0, 0] (textOnly noNumbers))
     = NoAmountsFound (js ''document too noisy or contains no numeric amounts'') noNumbers
   \<and> fst (finalRoute noCollaborators [0, 0, 0, 0, 0, 0, 0] (textOnly onlyLetter))
     = NormalizationFailed (js ''could not parse any valid numeric amounts from extracted tokens'')
         [js ''l''] onlyLetter
   \<and> (\<exists>meta llm. fst (finalRoute noCollaborators [0, 0, 0, 0, 0, 0, 0] (textOnly totalTwice))
     = Ok (Some USD)
         [\<lparr> a_type = total_bill, a_value = Fin 5000,
            a_source = js ''text: '' @ [39] @ js ''Total: 5000'' @ [39] \<rparr>] meta llm)"
proof (intro conjI)
  note r = textOnly_request[OF noNumbers_not_blank(1) noNumbers_sanitize]
  from finalRoute_guardrails[OF r(1), unfolded r(2), OF noNumbers_extract]
  show "fst (finalRoute noCollaborators [0, 0, 0, 0, 0, 0, 0] (textOnly noNumbers))
     = NoAmountsFound (js ''document too noisy or contains no numeric amounts'') noNumbers"
    by simp
next
  note r = textOnly_request[OF not_blank_total(1) not_blank_total(5)]
  from finalRoute_guardrails[OF r(1), unfolded r(2), OF onlyLetter_extract]
  show "fst (finalRoute noCollaborators [0, 0, 0, 0, 0, 0, 0] (textOnly onlyLetter))
     = NormalizationFailed (js ''could not parse any valid numeric amounts from extracted tokens'')
         [js ''l''] onlyLetter"
    by (simp add: noCollaborators_def normalize_letter)
next
  note r = textOnly_request[OF not_blank_total(3) not_blank_total(6)]
  have ne: "js ''5000'' \<noteq> []" by (simp add: js_def)
  from finalRoute_guardrails[OF r(1), unfolded r(2), OF totalTwice_extract]
  show "\<exists>meta llm. fst (finalRoute noCollaborators [0, 0, 0, 0, 0, 0, 0] (textOnly totalTwice))
     = Ok (Some USD)
         [\<lparr> a_type = total_bill, a_value = Fin 5000,
            a_source = js ''text: '' @ [39] @ js ''Total: 5000'' @ [39] \<rparr>] meta llm"
    by (simp add: noCollaborators_def normalize_5000 ne
          classify_total_twice[unfolded totalTwice_def[symmetric]])
qed
end
